theory Spec2Isabelle
  imports Main
begin

section \<open>Strings and regular expressions of the host language\<close>

text \<open>
  A JavaScript string is a sequence of UTF-16 code units; a code unit is modelled as a
  natural number (the values above 65535 never occur in a real string, so a statement
  about all lists covers all strings). \<open>js\<close> embeds an ASCII literal.
\<close>

type_synonym jsstring = "nat list"

definition js :: "string \<Rightarrow> jsstring" where
  "js s = map of_char s"

text \<open>
  Regular expressions are abstract syntax, one constructor per construct of the
  ECMAScript pattern language that \<^verbatim>\<open>message-utils.ts\<close> uses:
  a literal code unit, a character class, the empty pattern, concatenation,
  alternation (left alternative first), the star (greedy when the flag is true,
  lazy otherwise), a numbered capture group, a back reference, a lookahead (positive
  when the flag is true), the assertions \<^verbatim>\<open>^\<close> (plain and in multiline mode,
  where it also holds after a line terminator: LF, CR, U+2028 or U+2029),
  \<^verbatim>\<open>$\<close> and \<^verbatim>\<open>\b\<close>.
\<close>

datatype regex =
    Chr nat
  | Cls "nat \<Rightarrow> bool"
  | Eps
  | Seq regex regex
  | Alt regex regex
  | Star bool regex
  | Grp nat regex
  | Bref nat
  | Look bool regex
  | Bol
  | BolM
  | Eol
  | Wordb

text \<open>
  The matcher state: the code unit before the current position (\<open>None\<close> at the start of
  the input), the input that remains, and the captures made so far (latest first).
\<close>

datatype mstate = MS (prev: "nat option") (rest: jsstring) (caps: "(nat \<times> jsstring) list")

text \<open>
  The continuation of a match is a stack of frames: a pattern still to be matched, a
  capture group to be closed (with the input at its opening), and the re-entry of a star
  (with the length of the input when the iteration began: an iteration that consumed
  nothing is rejected, as ECMAScript does).
\<close>

datatype frame =
    KRe regex
  | KGrp nat jsstring
  | KLoop bool regex nat

fun groups_of :: "regex \<Rightarrow> nat list" where
  "groups_of (Seq a b) = groups_of a @ groups_of b"
| "groups_of (Alt a b) = groups_of a @ groups_of b"
| "groups_of (Star g r) = groups_of r"
| "groups_of (Grp n r) = n # groups_of r"
| "groups_of (Look p r) = groups_of r"
| "groups_of _ = []"

definition clear_caps :: "nat list \<Rightarrow> (nat \<times> jsstring) list \<Rightarrow> (nat \<times> jsstring) list" where
  "clear_caps ns cs = filter (\<lambda>(n, w). n \<notin> set ns) cs"

definition digit :: "nat \<Rightarrow> bool" where
  "digit c \<longleftrightarrow> 48 \<le> c \<and> c \<le> 57"

definition upper :: "nat \<Rightarrow> bool" where
  "upper c \<longleftrightarrow> 65 \<le> c \<and> c \<le> 90"

definition lower :: "nat \<Rightarrow> bool" where
  "lower c \<longleftrightarrow> 97 \<le> c \<and> c \<le> 122"

definition isWordChar :: "nat \<Rightarrow> bool" where
  "isWordChar c \<longleftrightarrow> digit c \<or> upper c \<or> lower c \<or> c = 95"

fun rsize :: "regex \<Rightarrow> nat" where
  "rsize (Seq a b) = rsize a + rsize b + 2"
| "rsize (Alt a b) = rsize a + rsize b + 1"
| "rsize (Star g r) = rsize r + 1"
| "rsize (Grp n r) = rsize r + 2"
| "rsize (Look p r) = rsize r + 1"
| "rsize _ = 1"

fun fsize :: "nat \<Rightarrow> frame \<Rightarrow> nat" where
  "fsize l (KRe r) = rsize r + 1"
| "fsize l (KGrp n w) = 1"
| "fsize l (KLoop g r n) = (if l < n then rsize r + 2 else 0)"

definition ksize :: "nat \<Rightarrow> frame list \<Rightarrow> nat" where
  "ksize l ks = sum_list (map (fsize l) ks)"

text \<open>
  The backtracking matcher: \<open>m r ks s\<close> matches \<open>r\<close> at state \<open>s\<close> and then the
  frames \<open>ks\<close>; the result is the state at the end of the first successful path, in the
  priority order of ECMAScript (left alternative first, a greedy star iterates before it
  stops, a lazy one stops before it iterates).
\<close>

function (sequential) m :: "regex \<Rightarrow> frame list \<Rightarrow> mstate \<Rightarrow> mstate option"
  and run :: "frame list \<Rightarrow> mstate \<Rightarrow> mstate option" where
  "m (Chr c) ks (MS p [] cs) = None"
| "m (Chr c) ks (MS p (x # xs) cs) = (if x = c then run ks (MS (Some x) xs cs) else None)"
| "m (Cls P) ks (MS p [] cs) = None"
| "m (Cls P) ks (MS p (x # xs) cs) = (if P x then run ks (MS (Some x) xs cs) else None)"
| "m Eps ks s = run ks s"
| "m (Seq a b) ks s = m a (KRe b # ks) s"
| "m (Alt a b) ks s = (case m a ks s of Some t \<Rightarrow> Some t | None \<Rightarrow> m b ks s)"
| "m (Star True r) ks (MS p xs cs) =
     (case m r (KLoop True r (length xs) # ks) (MS p xs (clear_caps (groups_of r) cs)) of
        Some t \<Rightarrow> Some t
      | None \<Rightarrow> run ks (MS p xs cs))"
| "m (Star False r) ks (MS p xs cs) =
     (case run ks (MS p xs cs) of
        Some t \<Rightarrow> Some t
      | None \<Rightarrow> m r (KLoop False r (length xs) # ks) (MS p xs (clear_caps (groups_of r) cs)))"
| "m (Grp n r) ks (MS p xs cs) = m r (KGrp n xs # ks) (MS p xs cs)"
| "m (Bref n) ks (MS p xs cs) =
     (case map_of cs n of
        None \<Rightarrow> run ks (MS p xs cs)
      | Some w \<Rightarrow>
          if take (length w) xs = w
          then run ks (MS (if w = [] then p else Some (last w)) (drop (length w) xs) cs)
          else None)"
| "m (Look b r) ks (MS p xs cs) =
     (case m r [] (MS p xs cs) of
        None \<Rightarrow> if b then None else run ks (MS p xs cs)
      | Some t \<Rightarrow> if b then run ks (MS p xs (caps t)) else None)"
| "m Bol ks (MS p xs cs) = (if p = None then run ks (MS p xs cs) else None)"
| "m BolM ks (MS p xs cs) =
     (if p = None \<or> p = Some 10 \<or> p = Some 13 \<or> p = Some 8232 \<or> p = Some 8233
      then run ks (MS p xs cs) else None)"
| "m Eol ks (MS p xs cs) = (if xs = [] then run ks (MS p xs cs) else None)"
| "m Wordb ks (MS p xs cs) =
     (if (case p of None \<Rightarrow> False | Some c \<Rightarrow> isWordChar c)
         \<noteq> (case xs of [] \<Rightarrow> False | c # _ \<Rightarrow> isWordChar c)
      then run ks (MS p xs cs) else None)"
| "run [] s = Some s"
| "run (KRe r # ks) s = m r ks s"
| "run (KGrp n w # ks) (MS p xs cs) =
     run ks (MS p xs ((n, take (length w - length xs) w) # cs))"
| "run (KLoop g r n # ks) (MS p xs cs) =
     (if length xs < n then m (Star g r) ks (MS p xs cs) else None)"
  by pat_completeness auto
termination
  apply (relation "inv_image (less_than <*lex*> less_than)
     (\<lambda>x. case x of
        Inl (r, ks, s) \<Rightarrow> (length (rest s), rsize r + ksize (length (rest s)) ks)
      | Inr (ks, s) \<Rightarrow> (length (rest s), ksize (length (rest s)) ks))")
  apply (auto simp: ksize_def)
  subgoal for n ks xs cs w
    by (subgoal_tac "length xs - length w = length xs") auto
  done

text \<open>Derived forms: a literal string, \<^verbatim>\<open>r?\<close>, \<^verbatim>\<open>r+\<close> and \<^verbatim>\<open>r{n}\<close>.\<close>

definition lit :: "string \<Rightarrow> regex" where
  "lit s = foldr (\<lambda>c r. Seq (Chr (of_char c)) r) s Eps"

definition opt :: "regex \<Rightarrow> regex" where
  "opt r = Alt r Eps"

definition plus :: "regex \<Rightarrow> regex" where
  "plus r = Seq r (Star True r)"

fun rep :: "nat \<Rightarrow> regex \<Rightarrow> regex" where
  "rep 0 r = Eps"
| "rep (Suc n) r = Seq r (rep n r)"

text \<open>
  The result of \<^verbatim>\<open>RegExp.prototype.exec\<close>: the index of the match, the matched
  text (element 0 of the array) and the captures. \<open>grp c n\<close> is element \<open>n\<close>,
  \<open>None\<close> where JavaScript has \<^verbatim>\<open>undefined\<close>.
\<close>

record capture =
  index :: nat
  whole :: jsstring
  groups :: "(nat \<times> jsstring) list"

definition grp :: "capture \<Rightarrow> nat \<Rightarrow> jsstring option" where
  "grp c n = map_of (groups c) n"

definition match_here :: "regex \<Rightarrow> nat option \<Rightarrow> jsstring \<Rightarrow> (jsstring \<times> (nat \<times> jsstring) list) option" where
  "match_here r p src =
     (case m r [] (MS p src []) of
        None \<Rightarrow> None
      | Some s' \<Rightarrow> Some (take (length src - length (rest s')) src, caps s'))"

text \<open>A pattern without the sticky flag is tried at every index, leftmost first.\<close>

fun exec_from :: "regex \<Rightarrow> nat option \<Rightarrow> jsstring \<Rightarrow> nat \<Rightarrow> capture option" where
  "exec_from r p [] i =
     (case match_here r p [] of
        None \<Rightarrow> None
      | Some (w, g) \<Rightarrow> Some \<lparr>index = i, whole = w, groups = g\<rparr>)"
| "exec_from r p (x # xs) i =
     (case match_here r p (x # xs) of
        None \<Rightarrow> exec_from r (Some x) xs (Suc i)
      | Some (w, g) \<Rightarrow> Some \<lparr>index = i, whole = w, groups = g\<rparr>)"

definition exec :: "regex \<Rightarrow> jsstring \<Rightarrow> capture option" where
  "exec r src = exec_from r None src 0"

section \<open>The link patterns (class \<^verbatim>\<open>patterns\<close>)\<close>

text \<open>
  The named groups are numbered in the order of their opening parentheses:
  scheme 1, version 2, guildId 3, channelId 4, messageId 5.
\<close>

definition patterns_snowflake :: regex where
  "patterns_snowflake = rep 18 (Cls digit)"

definition patterns_web :: regex where
  "patterns_web =
     Seq (opt (Seq (Grp 1 (Seq (lit ''http'') (opt (lit ''s'')))) (lit ''://'')))
    (Seq (opt (Seq (Grp 2 (Alt (lit ''canary'') (lit ''ptb''))) (lit ''.'')))
         (lit ''discord.com''))"

definition patterns_protocol :: regex where
  "patterns_protocol = lit ''discord://-''"

definition patterns_base :: regex where
  "patterns_base = Alt patterns_web patterns_protocol"

definition patterns_guild :: regex where
  "patterns_guild =
     Seq patterns_base (Seq (lit ''/channels/'') (Grp 3 (Alt patterns_snowflake (lit ''@me''))))"

definition patterns_channel :: regex where
  "patterns_channel = Seq patterns_guild (Seq (lit ''/'') (Grp 4 patterns_snowflake))"

definition patterns_message :: regex where
  "patterns_message = Seq patterns_channel (Seq (lit ''/'') (Grp 5 patterns_snowflake))"

section \<open>Resolving a message link\<close>

text \<open>
  The errors \<^verbatim>\<open>resolveMessageLink\<close> can end with: a \<^verbatim>\<open>TypeError\<close> (the one the
  function throws itself, or the one the runtime throws on a property read of
  \<^verbatim>\<open>undefined\<close> or \<^verbatim>\<open>null\<close>, whose message text is the engine's), a
  \<^verbatim>\<open>MessageResolveError\<close> (the subclass of \<^verbatim>\<open>TypeError\<close> declared in the file), or
  the rejection of a lookup of the client, passed on as it is.
\<close>

datatype 'x error =
    TypeError string
  | MessageResolveError string
  | Rejected 'x

definition instanceof_TypeError :: "'x error \<Rightarrow> bool" where
  "instanceof_TypeError e = (case e of TypeError _ \<Rightarrow> True | MessageResolveError _ \<Rightarrow> True | Rejected _ \<Rightarrow> False)"

definition instanceof_MessageResolveError :: "'x error \<Rightarrow> bool" where
  "instanceof_MessageResolveError e = (case e of MessageResolveError _ \<Rightarrow> True | _ \<Rightarrow> False)"

datatype flag = VIEW_CHANNEL | OTHER_FLAG

text \<open>
  The classes the function tests a channel against. A guild channel answers
  \<^verbatim>\<open>permissionsFor\<close> (\<open>None\<close> for \<^verbatim>\<open>null\<close>), a direct-message channel has the id of
  its recipient, a group channel the user names of its recipients.
\<close>

datatype 'u channel_class =
    GuildChannel "'u \<Rightarrow> (flag \<Rightarrow> bool) option"
  | DMChannel jsstring
  | PartialGroupDMChannel "jsstring list"
  | OtherChannel

record ('u, 'msg, 'x) channel =
  isText :: bool
  cls :: "'u channel_class"
  messages_fetch :: "jsstring option \<Rightarrow> 'x + 'msg"

record ('u, 'msg, 'x) client =
  channels_fetch :: "jsstring option \<Rightarrow> 'x + ('u, 'msg, 'x) channel"
  users_resolveId :: "'u \<Rightarrow> jsstring option"
  users_resolve :: "'u \<Rightarrow> jsstring option"

text \<open>The lookups a call makes, in the order it makes them.\<close>

datatype event = ChannelFetch "jsstring option" | MessageFetch "jsstring option"

text \<open>
  The condition of the \<^verbatim>\<open>else if\<close>: true when the user may not see the channel.
  \<open>options\<close> is \<open>None\<close> when the caller left the argument out; reading
  \<^verbatim>\<open>options.asUser\<close> then throws, as does reading \<^verbatim>\<open>username\<close> of a user that
  \<^verbatim>\<open>client.users.resolve\<close> did not find (\<open>users_resolve\<close> gives the user name of the
  user it finds). The callback of \<^verbatim>\<open>some\<close> runs only when there is a recipient.
\<close>

definition denied :: "('u, 'msg, 'x) client \<Rightarrow> ('u, 'msg, 'x) channel \<Rightarrow> 'u option \<Rightarrow> 'x error + bool" where
  "denied client channel options =
     (case cls channel of
        GuildChannel permissionsFor \<Rightarrow>
          (case options of
             None \<Rightarrow> Inl (TypeError ''Cannot read properties of undefined'')
           | Some asUser \<Rightarrow>
               Inr (case permissionsFor asUser of None \<Rightarrow> True | Some perms \<Rightarrow> \<not> perms VIEW_CHANNEL))
      | DMChannel recipient_id \<Rightarrow>
          (case options of
             None \<Rightarrow> Inl (TypeError ''Cannot read properties of undefined'')
           | Some asUser \<Rightarrow> Inr (Some recipient_id \<noteq> users_resolveId client asUser))
      | PartialGroupDMChannel recipients \<Rightarrow>
          (if recipients = [] then Inr True
           else case options of
             None \<Rightarrow> Inl (TypeError ''Cannot read properties of undefined'')
           | Some asUser \<Rightarrow>
               (case users_resolve client asUser of
                  None \<Rightarrow> Inl (TypeError ''Cannot read properties of null'')
                | Some username \<Rightarrow> Inr (\<not> (\<exists>r \<in> set recipients. r = username))))
      | OtherChannel \<Rightarrow> Inr False)"

definition resolveMessageLink ::
  "('u, 'msg, 'x) client \<Rightarrow> jsstring option \<Rightarrow> 'u option \<Rightarrow> ('x error + 'msg) \<times> event list" where
  "resolveMessageLink client link options =
     (case (case link of None \<Rightarrow> None | Some l \<Rightarrow> exec patterns_message l) of
        None \<Rightarrow> (Inl (TypeError ''The provided link is not a message link!''), [])
      | Some match \<Rightarrow>
          (let channelId = grp match 4; messageId = grp match 5 in
           case channels_fetch client channelId of
             Inl x \<Rightarrow> (Inl (Rejected x), [ChannelFetch channelId])
           | Inr channel \<Rightarrow>
               if \<not> isText channel
               then (Inl (MessageResolveError ''Channel is not a text channel!''), [ChannelFetch channelId])
               else (case denied client channel options of
                       Inl e \<Rightarrow> (Inl e, [ChannelFetch channelId])
                     | Inr True \<Rightarrow>
                         (Inl (MessageResolveError ''User does not have permission!''), [ChannelFetch channelId])
                     | Inr False \<Rightarrow>
                         (case messages_fetch channel messageId of
                            Inl x \<Rightarrow> (Inl (Rejected x), [ChannelFetch channelId, MessageFetch messageId])
                          | Inr msg \<Rightarrow> (Inr msg, [ChannelFetch channelId, MessageFetch messageId])))))"

section \<open>The host language: string methods\<close>

text \<open>
  \<^verbatim>\<open>String.prototype.replace\<close> with a pattern without the global flag replaces the
  first match; with the global flag it replaces every match, scanning on from the end of
  each match (and past one code unit after an empty match). \<open>sub\<close> builds the
  replacement from the captures: the constant \<open>no_text\<close> for the replacement \<^verbatim>\<open>''\<close>,
  \<open>dollar1\<close> for \<^verbatim>\<open>"$1"\<close>.
\<close>

definition no_text :: "(nat \<times> jsstring) list \<Rightarrow> jsstring" where
  "no_text g = []"

definition dollar1 :: "(nat \<times> jsstring) list \<Rightarrow> jsstring" where
  "dollar1 g = (case map_of g 1 of None \<Rightarrow> [] | Some w \<Rightarrow> w)"

definition replace_first :: "regex \<Rightarrow> ((nat \<times> jsstring) list \<Rightarrow> jsstring) \<Rightarrow> jsstring \<Rightarrow> jsstring" where
  "replace_first r sub s =
     (case exec r s of
        None \<Rightarrow> s
      | Some c \<Rightarrow> take (index c) s @ sub (groups c) @ drop (index c + length (whole c)) s)"

function replace_all_from ::
  "regex \<Rightarrow> ((nat \<times> jsstring) list \<Rightarrow> jsstring) \<Rightarrow> nat option \<Rightarrow> jsstring \<Rightarrow> jsstring" where
  "replace_all_from r sub p [] =
     (case match_here r p [] of None \<Rightarrow> [] | Some (w, g) \<Rightarrow> sub g)"
| "replace_all_from r sub p (x # xs) =
     (case match_here r p (x # xs) of
        None \<Rightarrow> x # replace_all_from r sub (Some x) xs
      | Some (w, g) \<Rightarrow>
          if w = [] then sub g @ x # replace_all_from r sub (Some x) xs
          else sub g @ replace_all_from r sub (Some (last w)) (drop (length w) (x # xs)))"
  by pat_completeness auto
termination
  by (relation "measure (\<lambda>(r, sub, p, s). length s)") auto

definition replace_all :: "regex \<Rightarrow> ((nat \<times> jsstring) list \<Rightarrow> jsstring) \<Rightarrow> jsstring \<Rightarrow> jsstring" where
  "replace_all r sub s = replace_all_from r sub None s"

text \<open>\<^verbatim>\<open>replaceAll\<close> of one code unit by a string.\<close>

definition replaceAll :: "nat \<Rightarrow> jsstring \<Rightarrow> jsstring \<Rightarrow> jsstring" where
  "replaceAll c w s = concat (map (\<lambda>x. if x = c then w else [x]) s)"

text \<open>The white space of \<^verbatim>\<open>\s\<close> and of \<^verbatim>\<open>trim\<close> (white space and line terminators).\<close>

definition space :: "nat \<Rightarrow> bool" where
  "space c \<longleftrightarrow> (9 \<le> c \<and> c \<le> 13) \<or> c = 32 \<or> c = 160 \<or> c = 5760 \<or> (8192 \<le> c \<and> c \<le> 8202)
      \<or> c = 8232 \<or> c = 8233 \<or> c = 8239 \<or> c = 8287 \<or> c = 12288 \<or> c = 65279"

definition trim :: "jsstring \<Rightarrow> jsstring" where
  "trim s = rev (dropWhile space (rev (dropWhile space s)))"

text \<open>The value of \<^verbatim>\<open>v || ''\<close> for a capture \<open>v\<close>.\<close>

definition or_empty :: "jsstring option \<Rightarrow> jsstring" where
  "or_empty v = (case v of None \<Rightarrow> [] | Some w \<Rightarrow> w)"

section \<open>Nodes and the parse state\<close>

text \<open>
  One constructor per node type the rule set can produce; the payload is what the rule's
  \<^verbatim>\<open>parse\<close> stores. A field copied from a capture is an option (\<open>None\<close> for
  \<^verbatim>\<open>undefined\<close>). The engine gives a node the name of its rule as its type unless the
  rule set one: the rules \<^verbatim>\<open>escape\<close> and \<^verbatim>\<open>emoticon\<close> produce nodes of type
  \<^verbatim>\<open>text\<close>.
\<close>

datatype node =
    Text "jsstring option"
  | BlockQuote "node list"
  | CodeBlock jsstring "jsstring option" bool
  | Newline
  | Autolink "node list" "jsstring option"
  | Url "node list" "jsstring option"
  | Em "node list"
  | Strong "node list"
  | U "node list"
  | Strike "node list"
  | InlineCode jsstring
  | Br
  | Spoiler "node list"
  | DiscordUser "jsstring option"
  | DiscordChannel "jsstring option"
  | DiscordRole "jsstring option"
  | DiscordEmoji bool "jsstring option" "jsstring option"
  | DiscordEveryone
  | DiscordHere

text \<open>
  The state object of a parse: the flags \<^verbatim>\<open>inline\<close> and \<^verbatim>\<open>inQuote\<close> (\<open>None\<close> while
  unset) and the text of the previous capture (\<open>None\<close> for \<^verbatim>\<open>null\<close>). It is one
  mutable object shared by the engine and the rules; the model passes it along.
\<close>

record pstate =
  inline :: "bool option"
  inQuote :: "bool option"
  prevCapture :: "jsstring option"

definition truthy :: "bool option \<Rightarrow> bool" where
  "truthy v = (v = Some True)"

text \<open>
  A computation of the parser ends with a value, throws (\<open>Inl\<close> with the message), or
  runs out of the fuel that bounds the depth of its recursion (\<open>None\<close>).
\<close>

type_synonym 'a res = "(string + 'a) option"

type_synonym parser = "jsstring \<Rightarrow> pstate \<Rightarrow> (node list \<times> pstate) res"

record rule =
  rule_name :: string
  rule_order :: nat
  rule_quality :: "(capture \<Rightarrow> nat) option"
  rule_match :: "jsstring \<Rightarrow> pstate \<Rightarrow> jsstring \<Rightarrow> capture option"
  rule_parse :: "capture \<Rightarrow> parser \<Rightarrow> pstate \<Rightarrow> (node \<times> pstate) res"

section \<open>The library \<^verbatim>\<open>simple-markdown\<close>\<close>

text \<open>
  The file builds its parser with \<^verbatim>\<open>markdown.parserFor\<close> and takes several rules, and
  the order numbers of all but one, from \<^verbatim>\<open>markdown.defaultRules\<close>. The library is a
  dependency of the repository and not part of its sources; this section models the
  parts the file uses, after version 0.7 of the library: the wrappers
  \<^verbatim>\<open>inlineRegex\<close>, \<^verbatim>\<open>blockRegex\<close> and \<^verbatim>\<open>anyScopeRegex\<close>, the default rules, the
  normalisation of white space and the engine.
\<close>

definition inlineRegex :: "regex \<Rightarrow> jsstring \<Rightarrow> pstate \<Rightarrow> jsstring \<Rightarrow> capture option" where
  "inlineRegex r source state prevSource = (if truthy (inline state) then exec r source else None)"

definition blockRegex :: "regex \<Rightarrow> jsstring \<Rightarrow> pstate \<Rightarrow> jsstring \<Rightarrow> capture option" where
  "blockRegex r source state prevSource = (if truthy (inline state) then None else exec r source)"

definition anyScopeRegex :: "regex \<Rightarrow> jsstring \<Rightarrow> pstate \<Rightarrow> jsstring \<Rightarrow> capture option" where
  "anyScopeRegex r source state prevSource = exec r source"

text \<open>Patterns are written as lists of parts; \<open>lits\<close> is a literal given by its code units.\<close>

definition seqs :: "regex list \<Rightarrow> regex" where
  "seqs rs = foldr Seq rs Eps"

definition lits :: "jsstring \<Rightarrow> regex" where
  "lits w = foldr (\<lambda>c r. Seq (Chr c) r) w Eps"

definition anychar :: regex where
  "anychar = Cls (\<lambda>c. True)"

definition lazy_plus :: "regex \<Rightarrow> regex" where
  "lazy_plus r = Seq r (Star False r)"

text \<open>
  The order numbers: the library numbers its default rules from 0 in the order of their
  declaration (heading, nptable, lheading, hr, codeBlock, fence, blockQuote, list, def,
  table, newline, paragraph, escape, tableSeparator, autolink, mailto, url, link, image,
  reflink, refimage), the rules em, strong and u share one number, and del, inlineCode,
  br and text follow.
\<close>

definition order_codeBlock :: nat where "order_codeBlock = 4"
definition order_blockQuote :: nat where "order_blockQuote = 6"
definition order_newline :: nat where "order_newline = 10"
definition order_escape :: nat where "order_escape = 12"
definition order_autolink :: nat where "order_autolink = 14"
definition order_url :: nat where "order_url = 16"
definition order_strong :: nat where "order_strong = 21"
definition order_del :: nat where "order_del = 22"
definition order_inlineCode :: nat where "order_inlineCode = 23"
definition order_br :: nat where "order_br = 24"
definition order_text :: nat where "order_text = 25"

text \<open>
  \<^verbatim>\<open>parseInline\<close> of the library, which the rules strong, u and del use through
  \<^verbatim>\<open>parseCaptureInline\<close>: it sets \<^verbatim>\<open>inline\<close> for the nested parse and puts the earlier
  value back.
\<close>

definition parseInline :: "parser \<Rightarrow> jsstring option \<Rightarrow> pstate \<Rightarrow> (node list \<times> pstate) res" where
  "parseInline parse content state =
     (let isCurrentlyInline = truthy (inline state) in
      case parse (or_empty content) (state\<lparr>inline := Some True\<rparr>) of
        None \<Rightarrow> None
      | Some (Inl e) \<Rightarrow> Some (Inl e)
      | Some (Inr (result, state')) \<Rightarrow> Some (Inr (result, state'\<lparr>inline := Some isCurrentlyInline\<rparr>)))"

text \<open>The default patterns the file keeps.\<close>

definition newline_re :: regex where
  "newline_re = seqs [Bol, Star True (Seq (Chr 10) (Star True (Chr 32))), Chr 10]"

definition escape_re :: regex where
  "escape_re = seqs [Bol, Chr 92, Grp 1 (Cls (\<lambda>c. \<not> (digit c \<or> upper c \<or> lower c \<or> space c)))]"

definition autolink_re :: regex where
  "autolink_re = seqs [Bol, Chr 60,
     Grp 1 (seqs [plus (Cls (\<lambda>c. c \<noteq> 58 \<and> c \<noteq> 32 \<and> c \<noteq> 62)), Chr 58, Chr 47,
                  plus (Cls (\<lambda>c. c \<noteq> 32 \<and> c \<noteq> 62))]),
     Chr 62]"

definition url_re :: regex where
  "url_re = seqs [Bol,
     Grp 1 (seqs [lit ''http'', opt (Chr 115), lit ''://'',
                  plus (Cls (\<lambda>c. \<not> space c \<and> c \<noteq> 60)),
                  Cls (\<lambda>c. \<not> (c = 60 \<or> c = 46 \<or> c = 44 \<or> c = 58 \<or> c = 59 \<or> c = 34 \<or> c = 39
                              \<or> c = 41 \<or> c = 93 \<or> space c))])]"

definition em_re :: regex where
  "em_re = Alt
     (seqs [Bol, Wordb, Chr 95,
            Grp 1 (lazy_plus (Alt (lit ''__'') (Alt (Seq (Chr 92) anychar) (Cls (\<lambda>c. c \<noteq> 92 \<and> c \<noteq> 95))))),
            Chr 95, Wordb])
     (seqs [Bol, Chr 42, Look True (Cls (\<lambda>c. \<not> space c)),
            Grp 2 (lazy_plus
              (Alt (lit ''**'')
              (Alt (Seq (Chr 92) anychar)
              (Alt (Seq (plus (Cls space))
                        (Alt (Seq (Chr 92) anychar)
                        (Alt (Cls (\<lambda>c. \<not> space c \<and> c \<noteq> 42 \<and> c \<noteq> 92)) (lit ''**''))))
                   (Cls (\<lambda>c. \<not> space c \<and> c \<noteq> 42 \<and> c \<noteq> 92)))))),
            Chr 42, Look False (Chr 42)])"

definition strong_re :: regex where
  "strong_re = seqs [Bol, lit ''**'',
     Grp 1 (lazy_plus (Alt (Seq (Chr 92) anychar) (Cls (\<lambda>c. c \<noteq> 92)))),
     lit ''**'', Look False (Chr 42)]"

definition u_re :: regex where
  "u_re = seqs [Bol, lit ''__'',
     Grp 1 (lazy_plus (Alt (Seq (Chr 92) anychar) (Cls (\<lambda>c. c \<noteq> 92)))),
     lit ''__'', Look False (Chr 95)]"

definition inlineCode_re :: regex where
  "inlineCode_re = seqs [Bol, Grp 1 (plus (Chr 96)),
     Grp 2 (Seq (Star False anychar) (Cls (\<lambda>c. c \<noteq> 96))), Bref 1, Look False (Chr 96)]"

definition INLINE_CODE_ESCAPE_BACKTICKS_R :: regex where
  "INLINE_CODE_ESCAPE_BACKTICKS_R = Alt
     (seqs [Bol, Chr 32, Look True (Seq (Star True (Chr 32)) (Chr 96))])
     (seqs [Grp 1 (Seq (Chr 96) (Star True (Chr 32))), Chr 32, Eol])"

text \<open>
  The normalisation the engine applies to the source before it parses: a carriage
  return, with the line feed after it if there is one, becomes a line feed, form feeds
  are dropped, a tab becomes four spaces.
\<close>

fun cr_newline :: "jsstring \<Rightarrow> jsstring" where
  "cr_newline [] = []"
| "cr_newline [x] = (if x = 13 then [10] else [x])"
| "cr_newline (x # y # ys) =
     (if x = 13 then (if y = 10 then 10 # cr_newline ys else 10 # cr_newline (y # ys))
      else x # cr_newline (y # ys))"

definition preprocess :: "jsstring \<Rightarrow> jsstring" where
  "preprocess source = replaceAll 9 (js ''    '') (replaceAll 12 [] (cr_newline source))"

section \<open>The rules of \<^verbatim>\<open>message-utils.ts\<close>\<close>

definition text_special :: "nat \<Rightarrow> bool" where
  "text_special c \<longleftrightarrow> \<not> (digit c \<or> upper c \<or> lower c \<or> space c \<or> (192 \<le> c \<and> c \<le> 65535) \<or> c = 45)"

definition text_re :: regex where
  "text_re = seqs [Bol, lazy_plus anychar,
     Look True (Alt (Cls text_special)
               (Alt (Seq (Chr 10) (Chr 10))
               (Alt (Chr 10)
               (Alt (seqs [plus (Cls isWordChar), Chr 58, Cls (\<lambda>c. \<not> space c)])
                    Eol))))]"

definition text_rule :: rule where
  "text_rule = \<lparr>rule_name = ''text'', rule_order = order_text, rule_quality = None,
     rule_match = (\<lambda>source state prevSource. exec text_re source),
     rule_parse = (\<lambda>capture parse state. Some (Inr (Text (Some (whole capture)), state)))\<rparr>"

definition prev_line_re :: regex where
  "prev_line_re = Alt (Seq Bol Eol) (seqs [Chr 10, Star True (Chr 32), Eol])"

definition blockQuote_re :: regex where
  "blockQuote_re = Alt
     (seqs [Bol, Grp 1 (seqs [Star True (Chr 32), lit ''>>> '', Grp 2 (Star True anychar)])])
     (seqs [Bol, Grp 3 (seqs [Star True (Chr 32), lit ''> '', Star True (Cls (\<lambda>c. c \<noteq> 10)),
              Star True (Grp 4 (seqs [Chr 10, Star True (Chr 32), lit ''> '', Star True (Cls (\<lambda>c. c \<noteq> 10))])),
              opt (Chr 10)])])"

definition block_syntax_re :: regex where
  "block_syntax_re = seqs [Bol, Star True (Chr 32), lit ''>>>'', opt (Chr 32)]"

definition line_syntax_re :: regex where
  "line_syntax_re = seqs [BolM, Star True (Chr 32), Chr 62, opt (Chr 32)]"

definition blockQuote_match :: "jsstring \<Rightarrow> pstate \<Rightarrow> jsstring \<Rightarrow> capture option" where
  "blockQuote_match source state prevSource =
     (if exec prev_line_re prevSource = None \<or> truthy (inQuote state) then None
      else exec blockQuote_re source)"

definition blockQuote_parse :: "capture \<Rightarrow> parser \<Rightarrow> pstate \<Rightarrow> (node \<times> pstate) res" where
  "blockQuote_parse capture parse state =
     (let all = whole capture;
          isBlock = (exec block_syntax_re all \<noteq> None);
          content = (if isBlock then replace_first block_syntax_re no_text all
                     else replace_all line_syntax_re no_text all);
          state1 = state\<lparr>inQuote := Some True\<rparr>;
          state2 = (if \<not> isBlock then state1\<lparr>inline := Some True\<rparr> else state1)
      in case parse content state2 of
           None \<Rightarrow> None
         | Some (Inl e) \<Rightarrow> Some (Inl e)
         | Some (Inr (parsed, state3)) \<Rightarrow>
             Some (Inr (BlockQuote parsed,
                        state3\<lparr>inQuote := Some (truthy (inQuote state3)),
                               inline := Some (truthy (inline state3))\<rparr>)))"

definition blockQuote_rule :: rule where
  "blockQuote_rule = \<lparr>rule_name = ''blockQuote'', rule_order = order_blockQuote, rule_quality = None,
     rule_match = blockQuote_match, rule_parse = blockQuote_parse\<rparr>"

definition codeBlock_re :: regex where
  "codeBlock_re = seqs [Bol, lit ''```'',
     opt (Grp 1 (Seq (Grp 2 (lazy_plus (Cls (\<lambda>c. lower c \<or> upper c \<or> digit c \<or> c = 45))))
                     (plus (Chr 10)))),
     Star True (Chr 10), Grp 3 (lazy_plus anychar), Star True (Chr 10), lit ''```'']"

definition codeBlock_rule :: rule where
  "codeBlock_rule = \<lparr>rule_name = ''codeBlock'', rule_order = order_codeBlock, rule_quality = None,
     rule_match = inlineRegex codeBlock_re,
     rule_parse = (\<lambda>capture parse state.
        Some (Inr (CodeBlock (trim (or_empty (grp capture 2))) (grp capture 3) (truthy (inQuote state)),
                   state)))\<rparr>"

definition newline_rule :: rule where
  "newline_rule = \<lparr>rule_name = ''newline'', rule_order = order_newline, rule_quality = None,
     rule_match = blockRegex newline_re,
     rule_parse = (\<lambda>capture parse state. Some (Inr (Newline, state)))\<rparr>"

definition escape_rule :: rule where
  "escape_rule = \<lparr>rule_name = ''escape'', rule_order = order_escape, rule_quality = None,
     rule_match = inlineRegex escape_re,
     rule_parse = (\<lambda>capture parse state. Some (Inr (Text (grp capture 1), state)))\<rparr>"

definition autolink_rule :: rule where
  "autolink_rule = \<lparr>rule_name = ''autolink'', rule_order = order_autolink, rule_quality = None,
     rule_match = inlineRegex autolink_re,
     rule_parse = (\<lambda>capture parse state.
        Some (Inr (Autolink [Text (grp capture 1)] (grp capture 1), state)))\<rparr>"

definition url_rule :: rule where
  "url_rule = \<lparr>rule_name = ''url'', rule_order = order_url, rule_quality = None,
     rule_match = inlineRegex url_re,
     rule_parse = (\<lambda>capture parse state.
        Some (Inr (Url [Text (grp capture 1)] (grp capture 1), state)))\<rparr>"

text \<open>
  The qualities of em, strong and u are the length of the match plus 0.2, plus 0.1 and
  plus 0; they are only compared with each other, and are counted here in tenths.
\<close>

definition em_rule :: rule where
  "em_rule = \<lparr>rule_name = ''em'', rule_order = order_strong,
     rule_quality = Some (\<lambda>capture. 10 * length (whole capture) + 2),
     rule_match = inlineRegex em_re,
     rule_parse = (\<lambda>capture parse state.
        case parse (or_empty (if or_empty (grp capture 2) \<noteq> [] then grp capture 2 else grp capture 1)) state of
          None \<Rightarrow> None
        | Some (Inl e) \<Rightarrow> Some (Inl e)
        | Some (Inr (parsed, state')) \<Rightarrow> Some (Inr (Em parsed, state')))\<rparr>"

definition strong_rule :: rule where
  "strong_rule = \<lparr>rule_name = ''strong'', rule_order = order_strong,
     rule_quality = Some (\<lambda>capture. 10 * length (whole capture) + 1),
     rule_match = inlineRegex strong_re,
     rule_parse = (\<lambda>capture parse state.
        case parseInline parse (grp capture 1) state of
          None \<Rightarrow> None
        | Some (Inl e) \<Rightarrow> Some (Inl e)
        | Some (Inr (parsed, state')) \<Rightarrow> Some (Inr (Strong parsed, state')))\<rparr>"

definition u_rule :: rule where
  "u_rule = \<lparr>rule_name = ''u'', rule_order = order_strong,
     rule_quality = Some (\<lambda>capture. 10 * length (whole capture)),
     rule_match = inlineRegex u_re,
     rule_parse = (\<lambda>capture parse state.
        case parseInline parse (grp capture 1) state of
          None \<Rightarrow> None
        | Some (Inl e) \<Rightarrow> Some (Inl e)
        | Some (Inr (parsed, state')) \<Rightarrow> Some (Inr (U parsed, state')))\<rparr>"

definition strike_re :: regex where
  "strike_re = seqs [Bol, lit ''~~'', Grp 1 (lazy_plus anychar), lit ''~~'', Look False (Chr 95)]"

definition strike_rule :: rule where
  "strike_rule = \<lparr>rule_name = ''strike'', rule_order = order_del, rule_quality = None,
     rule_match = inlineRegex strike_re,
     rule_parse = (\<lambda>capture parse state.
        case parseInline parse (grp capture 1) state of
          None \<Rightarrow> None
        | Some (Inl e) \<Rightarrow> Some (Inl e)
        | Some (Inr (parsed, state')) \<Rightarrow> Some (Inr (Strike parsed, state')))\<rparr>"

definition inlineCode_rule :: rule where
  "inlineCode_rule = \<lparr>rule_name = ''inlineCode'', rule_order = order_inlineCode, rule_quality = None,
     rule_match = inlineRegex inlineCode_re,
     rule_parse = (\<lambda>capture parse state.
        Some (Inr (InlineCode (replace_all INLINE_CODE_ESCAPE_BACKTICKS_R dollar1 (or_empty (grp capture 2))),
                   state)))\<rparr>"

definition shrug :: jsstring where
  "shrug = [175, 92, 95, 40, 12484, 41, 95, 47, 175]"

definition emoticon_re :: regex where
  "emoticon_re = seqs [Bol, Grp 1 (lits shrug)]"

definition emoticon_rule :: rule where
  "emoticon_rule = \<lparr>rule_name = ''emoticon'', rule_order = order_text, rule_quality = None,
     rule_match = (\<lambda>source state prevSource. exec emoticon_re source),
     rule_parse = (\<lambda>capture parse state. Some (Inr (Text (grp capture 1), state)))\<rparr>"

definition br_re :: regex where
  "br_re = seqs [Bol, Chr 10]"

definition br_rule :: rule where
  "br_rule = \<lparr>rule_name = ''br'', rule_order = order_br, rule_quality = None,
     rule_match = anyScopeRegex br_re,
     rule_parse = (\<lambda>capture parse state. Some (Inr (Br, state)))\<rparr>"

definition spoiler_re :: regex where
  "spoiler_re = seqs [Bol, lit ''||'', Grp 1 (lazy_plus anychar), lit ''||'']"

definition spoiler_rule :: rule where
  "spoiler_rule = \<lparr>rule_name = ''spoiler'', rule_order = 0, rule_quality = None,
     rule_match = (\<lambda>source state prevSource. exec spoiler_re source),
     rule_parse = (\<lambda>capture parse state.
        case parse (or_empty (grp capture 1)) state of
          None \<Rightarrow> None
        | Some (Inl e) \<Rightarrow> Some (Inl e)
        | Some (Inr (parsed, state')) \<Rightarrow> Some (Inr (Spoiler parsed, state')))\<rparr>"

definition discordUser_re :: regex where
  "discordUser_re = seqs [Bol, lit ''<@'', opt (Chr 33), Grp 1 (Star True (Cls digit)), Chr 62]"

definition discordUser_rule :: rule where
  "discordUser_rule = \<lparr>rule_name = ''discordUser'', rule_order = order_strong, rule_quality = None,
     rule_match = (\<lambda>source state prevSource. exec discordUser_re source),
     rule_parse = (\<lambda>capture parse state. Some (Inr (DiscordUser (grp capture 1), state)))\<rparr>"

definition discordChannel_re :: regex where
  "discordChannel_re = seqs [Bol, Chr 60, opt (Chr 35), Grp 1 (Star True (Cls digit)), Chr 62]"

definition discordChannel_rule :: rule where
  "discordChannel_rule = \<lparr>rule_name = ''discordChannel'', rule_order = order_strong, rule_quality = None,
     rule_match = (\<lambda>source state prevSource. exec discordChannel_re source),
     rule_parse = (\<lambda>capture parse state. Some (Inr (DiscordChannel (grp capture 1), state)))\<rparr>"

definition discordRole_re :: regex where
  "discordRole_re = seqs [Bol, lit ''<@&'', Grp 1 (Star True (Cls digit)), Chr 62]"

definition discordRole_rule :: rule where
  "discordRole_rule = \<lparr>rule_name = ''discordRole'', rule_order = order_strong, rule_quality = None,
     rule_match = (\<lambda>source state prevSource. exec discordRole_re source),
     rule_parse = (\<lambda>capture parse state. Some (Inr (DiscordRole (grp capture 1), state)))\<rparr>"

definition discordEmoji_re :: regex where
  "discordEmoji_re = seqs [Bol, Chr 60, Grp 1 (opt (Chr 97)), Chr 58, Grp 2 (plus (Cls isWordChar)),
     Chr 58, Grp 3 (plus (Cls digit)), Chr 62]"

definition discordEmoji_rule :: rule where
  "discordEmoji_rule = \<lparr>rule_name = ''discordEmoji'', rule_order = order_strong, rule_quality = None,
     rule_match = (\<lambda>source state prevSource. exec discordEmoji_re source),
     rule_parse = (\<lambda>capture parse state.
        Some (Inr (DiscordEmoji (grp capture 1 = Some [97]) (grp capture 2) (grp capture 3), state)))\<rparr>"

definition discordEveryone_re :: regex where
  "discordEveryone_re = seqs [Bol, lit ''@everyone'']"

definition discordEveryone_rule :: rule where
  "discordEveryone_rule = \<lparr>rule_name = ''discordEveryone'', rule_order = order_strong, rule_quality = None,
     rule_match = (\<lambda>source state prevSource. exec discordEveryone_re source),
     rule_parse = (\<lambda>capture parse state. Some (Inr (DiscordEveryone, state)))\<rparr>"

definition discordHere_re :: regex where
  "discordHere_re = seqs [Bol, lit ''@here'']"

definition discordHere_rule :: rule where
  "discordHere_rule = \<lparr>rule_name = ''discordHere'', rule_order = order_strong, rule_quality = None,
     rule_match = (\<lambda>source state prevSource. exec discordHere_re source),
     rule_parse = (\<lambda>capture parse state. Some (Inr (DiscordHere, state)))\<rparr>"

text \<open>The rule table in the order of its keys: \<^verbatim>\<open>rules\<close>, then \<^verbatim>\<open>discordRules\<close>.\<close>

definition rules :: "rule list" where
  "rules = [text_rule, blockQuote_rule, codeBlock_rule, newline_rule, escape_rule, autolink_rule,
     url_rule, em_rule, strong_rule, u_rule, strike_rule, inlineCode_rule, emoticon_rule, br_rule,
     spoiler_rule, discordUser_rule, discordChannel_rule, discordRole_rule, discordEmoji_rule,
     discordEveryone_rule, discordHere_rule]"

section \<open>The engine (\<^verbatim>\<open>parserFor\<close>)\<close>

text \<open>
  The engine sorts the rules by order number, then rules with a quality before rules
  without, then by name (code unit order).
\<close>

fun str_less :: "jsstring \<Rightarrow> jsstring \<Rightarrow> bool" where
  "str_less [] [] = False"
| "str_less [] (y # ys) = True"
| "str_less (x # xs) [] = False"
| "str_less (x # xs) (y # ys) = (x < y \<or> (x = y \<and> str_less xs ys))"

definition secondaryOrder :: "rule \<Rightarrow> nat" where
  "secondaryOrder r = (case rule_quality r of None \<Rightarrow> 1 | Some q \<Rightarrow> 0)"

definition rule_before :: "rule \<Rightarrow> rule \<Rightarrow> bool" where
  "rule_before a b \<longleftrightarrow>
     rule_order a < rule_order b
     \<or> (rule_order a = rule_order b
        \<and> (secondaryOrder a < secondaryOrder b
           \<or> (secondaryOrder a = secondaryOrder b \<and> str_less (js (rule_name a)) (js (rule_name b)))))"

fun insert_rule :: "rule \<Rightarrow> rule list \<Rightarrow> rule list" where
  "insert_rule a [] = [a]"
| "insert_rule a (b # bs) = (if rule_before b a then b # insert_rule a bs else a # b # bs)"

definition ruleList :: "rule list" where
  "ruleList = foldr insert_rule rules []"

text \<open>
  The choice of a rule at the head of the source: the rules are tried in the sorted
  order; the first that matches is chosen, except that the search goes on through the
  following rules of the same order number that have a quality, and a later match
  replaces the chosen one when its quality is not less than or equal to it.
\<close>

definition try_rule ::
  "rule \<Rightarrow> (rule \<times> capture \<times> nat) option \<Rightarrow> jsstring \<Rightarrow> pstate \<Rightarrow> (rule \<times> capture \<times> nat) option" where
  "try_rule currRule best source state =
     (let prevCaptureStr = or_empty (prevCapture state)
      in case rule_match currRule source state prevCaptureStr of
           None \<Rightarrow> best
         | Some currCapture \<Rightarrow>
             (let currQuality = (case rule_quality currRule of None \<Rightarrow> 0 | Some q \<Rightarrow> q currCapture)
              in case best of
                   None \<Rightarrow> Some (currRule, currCapture, currQuality)
                 | Some (r0, c0, quality) \<Rightarrow>
                     if currQuality \<le> quality then best
                     else Some (currRule, currCapture, currQuality)))"

fun select_rule ::
  "rule list \<Rightarrow> (rule \<times> capture \<times> nat) option \<Rightarrow> jsstring \<Rightarrow> pstate \<Rightarrow> (rule \<times> capture \<times> nat) option" where
  "select_rule [] best source state = best"
| "select_rule [currRule] best source state = try_rule currRule best source state"
| "select_rule (currRule # nextRule # others) best source state =
     (let best' = try_rule currRule best source state
      in if best' = None \<or> (rule_order nextRule = rule_order currRule \<and> rule_quality nextRule \<noteq> None)
         then select_rule (nextRule # others) best' source state
         else best')"

text \<open>
  \<^verbatim>\<open>nestedParse\<close>: the loop over the source. Each node is returned with the text of
  the capture that produced it, so that the cover of the source by the captures can be
  stated; the parser handed to the rules returns the nodes alone. The first argument
  bounds the depth of the recursion.
\<close>

definition nodes_only :: "((jsstring \<times> node) list \<times> pstate) res \<Rightarrow> (node list \<times> pstate) res" where
  "nodes_only x =
     (case x of None \<Rightarrow> None | Some (Inl e) \<Rightarrow> Some (Inl e)
      | Some (Inr (spans, state)) \<Rightarrow> Some (Inr (map snd spans, state)))"

fun nestedParse :: "nat \<Rightarrow> jsstring \<Rightarrow> pstate \<Rightarrow> ((jsstring \<times> node) list \<times> pstate) res" where
  "nestedParse 0 source state = None"
| "nestedParse (Suc n) [] state = Some (Inr ([], state))"
| "nestedParse (Suc n) (x # xs) state =
     (case select_rule ruleList None (x # xs) state of
        None \<Rightarrow> Some (Inl ''Could not find a matching rule for the below content.'')
      | Some (rule, capture, quality) \<Rightarrow>
          if index capture \<noteq> 0
          then Some (Inl ''`match` must return a capture starting at index 0'')
          else (case rule_parse rule capture (\<lambda>src st. nodes_only (nestedParse n src st)) state of
                  None \<Rightarrow> None
                | Some (Inl e) \<Rightarrow> Some (Inl e)
                | Some (Inr (parsed, state')) \<Rightarrow>
                    (case nestedParse n (drop (length (whole capture)) (x # xs))
                            (state'\<lparr>prevCapture := Some (whole capture)\<rparr>) of
                       None \<Rightarrow> None
                     | Some (Inl e) \<Rightarrow> Some (Inl e)
                     | Some (Inr (result, state'')) \<Rightarrow>
                         Some (Inr ((whole capture, parsed) # result, state'')))))"

text \<open>
  The parser the file exports: the engine on the normalised source, with the initial
  state \<^verbatim>\<open>{ inline: true }\<close>. A source of \<open>k\<close> code units needs a depth of at most
  \<open>k + 1\<close>.
\<close>

definition initial_state :: pstate where
  "initial_state = \<lparr>inline = Some True, inQuote = None, prevCapture = None\<rparr>"

definition parse_spans :: "jsstring \<Rightarrow> (jsstring \<times> node) list res" where
  "parse_spans source =
     (case nestedParse (Suc (length (preprocess source))) (preprocess source) initial_state of
        None \<Rightarrow> None
      | Some (Inl e) \<Rightarrow> Some (Inl e)
      | Some (Inr (spans, state)) \<Rightarrow> Some (Inr spans))"

definition parse :: "jsstring \<Rightarrow> node list res" where
  "parse source =
     (case parse_spans source of
        None \<Rightarrow> None
      | Some (Inl e) \<Rightarrow> Some (Inl e)
      | Some (Inr spans) \<Rightarrow> Some (Inr (map snd spans)))"

section \<open>Sanitizing and escaping\<close>

text \<open>
  \<^verbatim>\<open>sanitizeNode\<close>; \<^verbatim>\<open>join\<close> writes a missing text as the empty string. A node of
  type \<^verbatim>\<open>newline\<close> is none of the cases of the \<^verbatim>\<open>switch\<close> and gives the empty string.
\<close>

fun sanitizeNode :: "node \<Rightarrow> jsstring" where
  "sanitizeNode (Strong content) = concat (map sanitizeNode content)"
| "sanitizeNode (Em content) = concat (map sanitizeNode content)"
| "sanitizeNode (Strike content) = concat (map sanitizeNode content)"
| "sanitizeNode (U content) = concat (map sanitizeNode content)"
| "sanitizeNode (Url content target) = concat (map sanitizeNode content)"
| "sanitizeNode (Autolink content target) = concat (map sanitizeNode content)"
| "sanitizeNode (Spoiler content) = concat (map sanitizeNode content)"
| "sanitizeNode (BlockQuote content) = concat (map sanitizeNode content)"
| "sanitizeNode (DiscordUser i) = [32]"
| "sanitizeNode (DiscordChannel i) = [32]"
| "sanitizeNode (DiscordRole i) = [32]"
| "sanitizeNode DiscordEveryone = [32]"
| "sanitizeNode DiscordHere = [32]"
| "sanitizeNode (DiscordEmoji a n i) = [32]"
| "sanitizeNode (InlineCode content) = content"
| "sanitizeNode (CodeBlock lang content inq) = or_empty content"
| "sanitizeNode (Text content) = or_empty content"
| "sanitizeNode Br = [10]"
| "sanitizeNode Newline = []"

definition sanitize :: "jsstring \<Rightarrow> jsstring res" where
  "sanitize source =
     (case parse source of
        None \<Rightarrow> None
      | Some (Inl e) \<Rightarrow> Some (Inl e)
      | Some (Inr parsed) \<Rightarrow> Some (Inr (concat (map sanitizeNode parsed))))"

definition escape :: "jsstring \<Rightarrow> jsstring" where
  "escape content =
     replaceAll 60 [92, 60]
    (replaceAll 62 [92, 62]
    (replaceAll 126 [92, 126]
    (replaceAll 124 [92, 124]
    (replaceAll 96 [92, 96]
    (replaceAll 95 [92, 95]
    (replaceAll 42 [92, 42]
    (replaceAll 92 [92, 92] content)))))))"

section \<open>Concrete inputs\<close>

text \<open>The link of the specification's example, and clients and channels to run the resolver on.\<close>

definition link1 :: jsstring where
  "link1 = js ''https://discord.com/channels/111111111111111111/222222222222222222/333333333333333333''"

definition fenced_example :: jsstring where
  "fenced_example = js ''```js'' @ [10] @ js ''code'' @ [10] @ js ''```''"

definition fenced_in_text_example :: jsstring where
  "fenced_in_text_example = js ''x ```js'' @ [10] @ js ''**code**'' @ [10] @ js ''``` y''"

definition two_quotes_example :: jsstring where
  "two_quotes_example = js ''> a'' @ [10] @ js ''b'' @ [10] @ js ''> c''"

definition chan_open :: "(nat, nat, unit) channel" where
  "chan_open = \<lparr>isText = True, cls = GuildChannel (\<lambda>u. Some (\<lambda>f. True)), messages_fetch = (\<lambda>i. Inr 7)\<rparr>"

definition chan_hidden :: "(nat, nat, unit) channel" where
  "chan_hidden = \<lparr>isText = True, cls = GuildChannel (\<lambda>u. Some (\<lambda>f. False)), messages_fetch = (\<lambda>i. Inr 7)\<rparr>"

definition chan_voice :: "(nat, nat, unit) channel" where
  "chan_voice = \<lparr>isText = False, cls = GuildChannel (\<lambda>u. Some (\<lambda>f. False)), messages_fetch = (\<lambda>i. Inr 7)\<rparr>"

definition chan_dm :: "(nat, nat, unit) channel" where
  "chan_dm = \<lparr>isText = True, cls = DMChannel (js ''444444444444444444''), messages_fetch = (\<lambda>i. Inr 7)\<rparr>"

definition chan_group :: "(nat, nat, unit) channel" where
  "chan_group = \<lparr>isText = True, cls = PartialGroupDMChannel [js ''kaladin'', js ''shallan''],
     messages_fetch = (\<lambda>i. Inr 7)\<rparr>"

definition generic_TypeError :: "'x error \<Rightarrow> bool" where
  "generic_TypeError e \<longleftrightarrow> instanceof_TypeError e \<and> \<not> instanceof_MessageResolveError e"

definition client_of :: "(nat, nat, unit) channel \<Rightarrow> (nat, nat, unit) client" where
  "client_of ch = \<lparr>channels_fetch = (\<lambda>i. Inr ch),
      users_resolveId = (\<lambda>u. Some (js ''555555555555555555'')),
      users_resolve = (\<lambda>u. Some (js ''adolin''))\<rparr>"

text \<open>
  Two links with one digit too many, at the guild and at the channel position, and a link
  of the \<^verbatim>\<open>discord://\<close> form to a direct-message channel.
\<close>

definition long_guild_link :: jsstring where
  "long_guild_link = js ''https://discord.com/channels/1111111111111111111/222222222222222222/333333333333333333''"

definition long_channel_link :: jsstring where
  "long_channel_link = js ''https://discord.com/channels/111111111111111111/2222222222222222222/333333333333333333''"

definition link2 :: jsstring where
  "link2 = js ''discord://-/channels/@me/555555555555555555/666666666666666666''"

text \<open>Messages with a mention or a fenced block inside other markup.\<close>

definition mention_nested_example :: jsstring where
  "mention_nested_example = js ''> **<@1>a||@here||**''"

definition fenced_nested_example :: jsstring where
  "fenced_nested_example = js ''>>> ||```'' @ [10] @ js ''*x*'' @ [10] @ js ''```||''"

definition fenced_in_spoiler_example :: jsstring where
  "fenced_in_spoiler_example = js ''||```js'' @ [10] @ js ''**x**'' @ [10] @ js ''```||''"


section \<open>Classes of patterns\<close>

text \<open>
  A pattern that starts with \<^verbatim>\<open>^\<close> in each of its alternatives (\<open>anchored\<close>) can
  match at index 0 only.
\<close>

fun anchored :: "regex \<Rightarrow> bool" where
  "anchored (Seq Bol r) = True"
| "anchored (Alt a b) = (anchored a \<and> anchored b)"
| "anchored _ = False"

text \<open>
  A pattern built from literals, classes, concatenation, alternation and groups only
  (no assertion, no lookahead) that matches a text also matches that text followed by
  anything; \<open>simple\<close> recognises such patterns.
\<close>

fun simple :: "regex \<Rightarrow> bool" where
  "simple (Chr c) = True"
| "simple (Cls P) = True"
| "simple Eps = True"
| "simple (Seq a b) = (simple a \<and> simple b)"
| "simple (Alt a b) = (simple a \<and> simple b)"
| "simple (Grp n r) = simple r"
| "simple _ = False"

fun simple_frame :: "frame \<Rightarrow> frame \<Rightarrow> bool" where
  "simple_frame (KRe r) (KRe r') = (r = r' \<and> simple r)"
| "simple_frame (KGrp n w) (KGrp n' w') = True"
| "simple_frame _ _ = False"

section \<open>Measures for the termination of the parser\<close>

text \<open>
  \<open>minlen r\<close> is a number of code units that every match of \<open>r\<close> consumes; \<open>kmin\<close>
  adds it up over the patterns of a continuation. \<open>caps_le B\<close> bounds the length of
  every capture, \<open>frame_le B\<close> the text at the opening of a group that is still open.
  A parser is \<open>total_below k\<close> when it returns nodes for every source shorter than
  \<open>k\<close>. A rule is good when each of its captures on a non-empty source starts at
  index 0, is a non-empty prefix of the source, and its \<^verbatim>\<open>parse\<close> returns a node
  whenever the parser it is given is total on the sources shorter than this one.
\<close>

fun minlen :: "regex \<Rightarrow> nat" where
  "minlen (Chr c) = 1"
| "minlen (Cls P) = 1"
| "minlen (Seq a b) = minlen a + minlen b"
| "minlen (Alt a b) = min (minlen a) (minlen b)"
| "minlen (Grp n r) = minlen r"
| "minlen _ = 0"

fun fmin :: "frame \<Rightarrow> nat" where
  "fmin (KRe r) = minlen r"
| "fmin _ = 0"

definition kmin :: "frame list \<Rightarrow> nat" where
  "kmin ks = sum_list (map fmin ks)"

fun frame_le :: "nat \<Rightarrow> frame \<Rightarrow> bool" where
  "frame_le B (KGrp n w) = (length w \<le> B)"
| "frame_le B _ = True"

definition caps_le :: "nat \<Rightarrow> (nat \<times> jsstring) list \<Rightarrow> bool" where
  "caps_le B cs = (\<forall>(n, v) \<in> set cs. length v \<le> B)"

definition total_below :: "parser \<Rightarrow> nat \<Rightarrow> bool" where
  "total_below P k = (\<forall>s st. length s < k \<longrightarrow> (\<exists>ns st'. P s st = Some (Inr (ns, st'))))"

definition good_rule :: "rule \<Rightarrow> bool" where
  "good_rule r = (\<forall>src st pv c P. src \<noteq> [] \<longrightarrow> rule_match r src st pv = Some c \<longrightarrow>
     index c = 0 \<and> whole c \<noteq> [] \<and> length (whole c) \<le> length src
     \<and> whole c = take (length (whole c)) src
     \<and> (total_below P (length src) \<longrightarrow> (\<exists>node st'. rule_parse r c P st = Some (Inr (node, st')))))"

section \<open>The texts of message links\<close>

text \<open>
  The texts that \<^verbatim>\<open>patterns.message\<close> is written for, read off the pattern:
  a base (\<^verbatim>\<open>discord://-\<close>, or \<^verbatim>\<open>discord.com\<close> after an optional
  \<^verbatim>\<open>http://\<close> or \<^verbatim>\<open>https://\<close> and an optional \<^verbatim>\<open>canary.\<close> or
  \<^verbatim>\<open>ptb.\<close>), then \<^verbatim>\<open>/channels/\<close> and three ids separated by \<^verbatim>\<open>/\<close>. An id is
  a snowflake, eighteen digits; the first may also be \<^verbatim>\<open>@me\<close>.
\<close>

definition snowflake_text :: "jsstring \<Rightarrow> bool" where
  "snowflake_text w \<longleftrightarrow> length w = 18 \<and> list_all digit w"

definition link_bases :: "jsstring list" where
  "link_bases = js ''discord://-'' #
     [scheme @ version @ js ''discord.com''.
        scheme \<leftarrow> [[], js ''http://'', js ''https://''],
        version \<leftarrow> [[], js ''canary.'', js ''ptb.'']]"

definition message_link :: "jsstring \<Rightarrow> jsstring \<Rightarrow> jsstring \<Rightarrow> jsstring \<Rightarrow> jsstring" where
  "message_link base guildId channelId messageId
     = base @ js ''/channels/'' @ guildId @ js ''/'' @ channelId @ js ''/'' @ messageId"

section \<open>The nodes of a syntax tree\<close>

text \<open>
  \<open>leaves\<close> lists, from left to right, the nodes of a tree that are not containers (the
  containers are the node types whose content \<^verbatim>\<open>sanitizeNode\<close> maps over).
  \<open>platform_reference\<close> holds of the node types of the second group of cases of
  \<^verbatim>\<open>sanitizeNode\<close>: the mentions of a user, a channel and a role, \<^verbatim>\<open>@everyone\<close>,
  \<^verbatim>\<open>@here\<close> and the custom emoji.
\<close>

fun leaves :: "node \<Rightarrow> node list" where
  "leaves (Strong content) = concat (map leaves content)"
| "leaves (Em content) = concat (map leaves content)"
| "leaves (Strike content) = concat (map leaves content)"
| "leaves (U content) = concat (map leaves content)"
| "leaves (Url content target) = concat (map leaves content)"
| "leaves (Autolink content target) = concat (map leaves content)"
| "leaves (Spoiler content) = concat (map leaves content)"
| "leaves (BlockQuote content) = concat (map leaves content)"
| "leaves node = [node]"

fun platform_reference :: "node \<Rightarrow> bool" where
  "platform_reference (DiscordUser i) = True"
| "platform_reference (DiscordChannel i) = True"
| "platform_reference (DiscordRole i) = True"
| "platform_reference DiscordEveryone = True"
| "platform_reference DiscordHere = True"
| "platform_reference (DiscordEmoji a n i) = True"
| "platform_reference _ = False"

section \<open>Texts for the round trip of \<^verbatim>\<open>escape\<close>\<close>

text \<open>
  \<open>special8\<close> holds of the eight characters that \<^verbatim>\<open>escape\<close> puts a backslash before.
  A text is \<open>escaped\<close> when each of these characters in it follows a backslash that
  escapes it. \<open>plain_text\<close> holds of the texts without a tab, a line feed, a form feed
  or a carriage return and without an occurrence of \<^verbatim>\<open>@everyone\<close>, \<^verbatim>\<open>@here\<close>,
  \<^verbatim>\<open>http://\<close> or \<^verbatim>\<open>https://\<close>.
\<close>

definition special8 :: "nat \<Rightarrow> bool" where
  "special8 c \<longleftrightarrow> c = 92 \<or> c = 42 \<or> c = 95 \<or> c = 96 \<or> c = 124 \<or> c = 126 \<or> c = 62 \<or> c = 60"







section \<open>Properties of the matcher\<close>

lemma rep_numeral: "rep (numeral k) r = Seq r (rep (pred_numeral k) r)"
  by (simp add: numeral_eq_Suc)

lemmas pattern_defs = patterns_message_def patterns_channel_def patterns_guild_def patterns_base_def
  patterns_web_def patterns_protocol_def patterns_snowflake_def lit_def opt_def

lemma exec_link1:
  "exec patterns_message link1 = Some \<lparr>index = 0, whole = link1,
     groups = [(5, js ''333333333333333333''), (4, js ''222222222222222222''),
               (3, js ''111111111111111111''), (1, js ''https'')]\<rparr>"
  by (simp add: exec_def match_here_def pattern_defs js_def link1_def digit_def rep_numeral)

lemma exec_not_a_link: "exec patterns_message (js ''not a link'') = None"
  by (simp add: exec_def match_here_def pattern_defs js_def rep_numeral)

lemma extend_ok:
  "(simple r \<longrightarrow> (\<forall>ks' p' cs'. list_all2 simple_frame ks ks' \<longrightarrow> m r ks s \<noteq> None
        \<longrightarrow> m r ks' (MS p' (rest s @ post) cs') \<noteq> None))"
  "(\<forall>ks' p' cs'. list_all2 simple_frame ks0 ks' \<longrightarrow> run ks0 s0 \<noteq> None
        \<longrightarrow> run ks' (MS p' (rest s0 @ post) cs') \<noteq> None)"
proof (induction r ks s and ks0 s0 rule: m_run.induct)
  case (7 a b ks s)
  show ?case
  proof (intro impI allI)
    fix ks' p' cs'
    assume si: "simple (Alt a b)" and fr: "list_all2 simple_frame ks ks'"
      and ok: "m (Alt a b) ks s \<noteq> None"
    show "m (Alt a b) ks' (MS p' (rest s @ post) cs') \<noteq> None"
    proof (cases "m a ks s")
      case None
      with ok have "m b ks s \<noteq> None" by simp
      with 7(2)[OF None] si fr have "m b ks' (MS p' (rest s @ post) cs') \<noteq> None" by simp
      then show ?thesis by (simp split: option.splits)
    next
      case (Some t)
      with 7(1) si fr have "m a ks' (MS p' (rest s @ post) cs') \<noteq> None" by simp
      then show ?thesis by (auto split: option.splits)
    qed
  qed
next
  case (19 n w ks p xs cs)
  show ?case
  proof (intro allI impI)
    fix ks' p' cs'
    assume fr: "list_all2 simple_frame (KGrp n w # ks) ks'"
      and ok: "run (KGrp n w # ks) (MS p xs cs) \<noteq> None"
    from fr obtain f ks'' where ks': "ks' = f # ks''" and f: "simple_frame (KGrp n w) f"
      and r: "list_all2 simple_frame ks ks''"
      by (auto simp: list_all2_Cons1)
    from f obtain n' w' where "f = KGrp n' w'" by (cases f) auto
    with 19 ks' r ok show "run ks' (MS p' (rest (MS p xs cs) @ post) cs') \<noteq> None" by simp
  qed
next
  case (18 r ks s)
  show ?case
  proof (intro allI impI)
    fix ks' p' cs'
    assume fr: "list_all2 simple_frame (KRe r # ks) ks'"
      and ok: "run (KRe r # ks) s \<noteq> None"
    from fr obtain f ks'' where ks': "ks' = f # ks''" and f: "simple_frame (KRe r) f"
      and r: "list_all2 simple_frame ks ks''"
      by (auto simp: list_all2_Cons1)
    from f have "f = KRe r" "simple r" by (cases f; simp)+
    with 18 ks' r ok show "run ks' (MS p' (rest s @ post) cs') \<noteq> None" by simp
  qed
next
  case (20 g r n ks p xs cs)
  then show ?case by (auto simp: list_all2_Cons1)
qed (auto split: if_splits)

lemma exec_from_extend:
  assumes "simple r" and "match_here r q l \<noteq> None"
  shows "\<exists>c. exec_from r p (pre @ l @ post) i = Some c \<and> index c \<le> i + length pre"
proof (induction pre arbitrary: p i)
  case Nil
  from assms(2) have "m r [] (MS q l []) \<noteq> None"
    by (auto simp: match_here_def split: option.splits)
  with extend_ok(1)[of r "[]" "MS q l []" post] assms(1)
  have "m r [] (MS p (l @ post) []) \<noteq> None" by simp
  then have "match_here r p (l @ post) \<noteq> None"
    by (auto simp: match_here_def split: option.splits)
  then show ?case
    by (cases "l @ post") (auto split: option.splits)
next
  case (Cons x pre)
  show ?case
  proof (cases "match_here r p (x # pre @ l @ post)")
    case None
    with Cons.IH[of "Some x" "Suc i"] show ?thesis by auto
  next
    case (Some a)
    then show ?thesis by (auto split: prod.splits)
  qed
qed

lemma denied_error:
  "denied client channel options = Inl e \<Longrightarrow>
     e = TypeError ''Cannot read properties of undefined'' \<or> e = TypeError ''Cannot read properties of null''"
  by (cases "cls channel"; cases options)
     (auto simp: denied_def split: option.splits if_splits)

lemma resolve_matched:
  assumes "exec patterns_message l = Some match"
  shows "fst (resolveMessageLink client (Some l) options)
           \<noteq> Inl (TypeError ''The provided link is not a message link!'')"
    and "take 1 (snd (resolveMessageLink client (Some l) options)) = [ChannelFetch (grp match 4)]"
proof -
  let ?res = "resolveMessageLink client (Some l) options"
  have "fst ?res \<noteq> Inl (TypeError ''The provided link is not a message link!'')
        \<and> take 1 (snd ?res) = [ChannelFetch (grp match 4)]"
  proof (cases "channels_fetch client (grp match 4)")
    case (Inl x)
    with assms show ?thesis by (simp add: resolveMessageLink_def)
  next
    case (Inr channel)
    show ?thesis
    proof (cases "isText channel")
      case False
      with assms Inr show ?thesis by (simp add: resolveMessageLink_def)
    next
      case True
      show ?thesis
      proof (cases "denied client channel options")
        case (Inl e)
        from denied_error[OF this] assms Inr True Inl show ?thesis
          by (auto simp: resolveMessageLink_def)
      next
        case b: (Inr b)
        show ?thesis
        proof (cases b)
          case True
          with assms Inr \<open>isText channel\<close> b show ?thesis by (simp add: resolveMessageLink_def)
        next
          case False
          with assms Inr \<open>isText channel\<close> b show ?thesis
            by (cases "messages_fetch channel (grp match 5)") (simp_all add: resolveMessageLink_def)
        qed
      qed
    qed
  qed
  then show "fst ?res \<noteq> Inl (TypeError ''The provided link is not a message link!'')"
    and "take 1 (snd ?res) = [ChannelFetch (grp match 4)]" by simp_all
qed

lemma resolve_happy:
  assumes "exec patterns_message l = Some match"
    and "channels_fetch client (grp match 4) = Inr channel"
    and "isText channel" and "denied client channel options = Inr False"
  shows "resolveMessageLink client (Some l) options
           = (case messages_fetch channel (grp match 5) of
                Inl x \<Rightarrow> Inl (Rejected x) | Inr msg \<Rightarrow> Inr msg,
              [ChannelFetch (grp match 4), MessageFetch (grp match 5)])"
  using assms by (simp add: resolveMessageLink_def split: sum.splits)

text \<open>Eighteen code units of a class are matched by \<^verbatim>\<open>{18}\<close> of the class, and only those.\<close>

lemma rep_cls:
  "length w = n \<Longrightarrow> 0 < n \<Longrightarrow> list_all P w
   \<Longrightarrow> m (rep n (Cls P)) ks (MS p (w @ xs) cs) = run ks (MS (Some (last w)) xs cs)"
proof (induction w arbitrary: n p)
  case Nil
  then show ?case by simp
next
  case (Cons a w)
  then obtain k where n: "n = Suc k" by (cases n) auto
  show ?case
  proof (cases w)
    case Nil
    with Cons n show ?thesis by simp
  next
    case (Cons b w')
    with Cons.prems n Cons.IH[of k "Some a"] show ?thesis by simp
  qed
qed

lemma rep_cls_fail:
  "\<not> P x \<Longrightarrow> m (rep (numeral k) (Cls P)) ks (MS p (x # xs) cs) = None"
  by (simp add: rep_numeral)

text \<open>
  The message pattern matches the text of a message link in full, whatever follows it,
  and captures its three ids.
\<close>

lemma match_message_link:
  assumes "b \<in> set link_bases" and "snowflake_text g \<or> g = js ''@me''"
    and "snowflake_text c" and "snowflake_text mid"
  shows "\<exists>gs. match_here patterns_message p (message_link b g c mid @ post)
                 = Some (message_link b g c mid, gs)
           \<and> map_of gs 3 = Some g \<and> map_of gs 4 = Some c \<and> map_of gs 5 = Some mid"
proof -
  from assms(3,4) have c: "length c = 18" "list_all digit c" and mid: "length mid = 18" "list_all digit mid"
    by (simp_all add: snowflake_text_def)
  from assms(2) show ?thesis
  proof
    assume "snowflake_text g"
    then have g: "length g = 18" "list_all digit g" by (simp_all add: snowflake_text_def)
    from assms(1) show ?thesis
      apply (simp add: link_bases_def)
      apply (elim disjE)
      apply (simp_all add: match_here_def pattern_defs message_link_def js_def rep_cls c mid g)
      done
  next
    assume "g = js ''@me''"
    with assms(1) show ?thesis
      apply (simp add: link_bases_def)
      apply (elim disjE)
      apply (simp_all add: match_here_def pattern_defs message_link_def js_def rep_cls rep_cls_fail digit_def c mid)
      done
  qed
qed

text \<open>The match that \<^verbatim>\<open>exec\<close> returns is the match of the pattern at its index.\<close>

lemma exec_from_index:
  "exec_from r p s i = Some c \<Longrightarrow>
     i \<le> index c \<and> (\<exists>q. match_here r q (drop (index c - i) s) = Some (whole c, groups c))"
proof (induction s arbitrary: p i)
  case Nil
  then show ?case by (auto split: option.splits)
next
  case (Cons x xs)
  show ?case
  proof (cases "match_here r p (x # xs)")
    case None
    with Cons.prems have "exec_from r (Some x) xs (Suc i) = Some c" by simp
    from Cons.IH[OF this] obtain q where le: "Suc i \<le> index c"
      and q: "match_here r q (drop (index c - Suc i) xs) = Some (whole c, groups c)" by auto
    from le have "index c - i = Suc (index c - Suc i)" by simp
    with le q show ?thesis by auto
  next
    case (Some a)
    with Cons.prems show ?thesis by (auto split: prod.splits)
  qed
qed

lemma exec_long_guild: "exec patterns_message long_guild_link = None"
  by (simp add: exec_def match_here_def pattern_defs js_def long_guild_link_def digit_def rep_numeral)

lemma exec_long_channel: "exec patterns_message long_channel_link = None"
  by (simp add: exec_def match_here_def pattern_defs js_def long_channel_link_def digit_def rep_numeral)

lemma exec_two_links:
  "exec patterns_message (link2 @ js '' and '' @ link1)
     = Some \<lparr>index = 0, whole = link2,
         groups = [(5, js ''666666666666666666''), (4, js ''555555555555555555''), (3, js ''@me'')]\<rparr>"
  by (simp add: exec_def match_here_def pattern_defs js_def link1_def link2_def digit_def rep_numeral)

text \<open>
  When a text holds two links, the ids of the first one are looked up: the match is the
  leftmost one.
\<close>

lemma leftmost_link_wins:
  "snd (resolveMessageLink (client_of chan_open) (Some (link2 @ js '' and '' @ link1)) (Some 0))
     = [ChannelFetch (Some (js ''555555555555555555'')), MessageFetch (Some (js ''666666666666666666''))]"
  by (simp add: resolveMessageLink_def exec_two_links grp_def client_of_def chan_open_def denied_def)

text \<open>
  Claim C9 as stated fails for an id position with more than eighteen digits other than
  the last: with nineteen digits at the guild position, or at the channel position, the
  pattern matches nowhere in the link and \<^verbatim>\<open>resolveMessageLink\<close> throws the error of a
  malformed link, with no lookup made.
\<close>

theorem over_long_id_counterexample:
  "resolveMessageLink (client_of chan_open) (Some long_guild_link) (Some 0)
     = (Inl (TypeError ''The provided link is not a message link!''), [])
   \<and> resolveMessageLink (client_of chan_open) (Some long_channel_link) (Some 0)
     = (Inl (TypeError ''The provided link is not a message link!''), [])"
  by (simp add: resolveMessageLink_def exec_long_guild exec_long_channel)

text \<open>
  Claim C9, as amended. The pattern is applied without anchors. Let a text contain the
  text of a message link (a base, \<^verbatim>\<open>/channels/\<close>, a guild id of eighteen digits or
  \<^verbatim>\<open>@me\<close>, a channel id and a message id of eighteen digits each) between any text
  \<open>pre\<close> and any text \<open>post\<close>, so that \<open>post\<close> may begin with more digits. Then
  the pattern has a match that starts no later than the link; when the match starts at
  the link (no match starts in \<open>pre\<close>: for one, when \<open>pre\<close> is empty), the matched text
  is the link and the captured ids are its three ids. \<^verbatim>\<open>resolveMessageLink\<close> does not
  throw the error of a malformed link; its first lookup is the channel lookup with the
  captured channel id; and when that lookup gives a text channel the user may see, the
  lookups are the channel lookup with the captured channel id and then the message lookup
  with the captured message id, whose outcome is the outcome of the call.
\<close>

theorem resolve_unanchored:
  assumes "b \<in> set link_bases" and "snowflake_text g \<or> g = js ''@me''"
    and "snowflake_text c" and "snowflake_text mid"
  shows "\<exists>match. exec patterns_message (pre @ message_link b g c mid @ post) = Some match
           \<and> index match \<le> length pre
           \<and> (index match = length pre \<longrightarrow>
                whole match = message_link b g c mid
                \<and> grp match 3 = Some g \<and> grp match 4 = Some c \<and> grp match 5 = Some mid)
           \<and> fst (resolveMessageLink client (Some (pre @ message_link b g c mid @ post)) options)
                 \<noteq> Inl (TypeError ''The provided link is not a message link!'')
           \<and> take 1 (snd (resolveMessageLink client (Some (pre @ message_link b g c mid @ post)) options))
                 = [ChannelFetch (grp match 4)]
           \<and> (\<forall>channel. channels_fetch client (grp match 4) = Inr channel
                \<longrightarrow> isText channel \<longrightarrow> denied client channel options = Inr False
                \<longrightarrow> resolveMessageLink client (Some (pre @ message_link b g c mid @ post)) options
                    = (case messages_fetch channel (grp match 5) of
                         Inl x \<Rightarrow> Inl (Rejected x) | Inr msg \<Rightarrow> Inr msg,
                       [ChannelFetch (grp match 4), MessageFetch (grp match 5)]))"
proof -
  let ?l = "message_link b g c mid"
  have si: "simple patterns_message"
    by (simp add: pattern_defs rep_numeral)
  from match_message_link[OF assms, of None "[]"]
  have "match_here patterns_message None ?l \<noteq> None" by auto
  from exec_from_extend[OF si this, of None pre post 0]
  obtain match where ex: "exec patterns_message (pre @ ?l @ post) = Some match"
    and le: "index match \<le> length pre"
    by (auto simp: exec_def)
  have tie: "whole match = ?l \<and> grp match 3 = Some g \<and> grp match 4 = Some c \<and> grp match 5 = Some mid"
    if "index match = length pre"
  proof -
    from ex exec_from_index[of patterns_message None "pre @ ?l @ post" 0 match] that
    obtain q where "match_here patterns_message q (?l @ post) = Some (whole match, groups match)"
      by (auto simp: exec_def)
    with match_message_link[OF assms, of q post] show ?thesis
      by (auto simp: grp_def)
  qed
  from ex le tie resolve_matched[OF ex, of client options] resolve_happy[OF ex, of client _ options]
  show ?thesis by blast
qed

text \<open>
  Claim C3, as amended. A link that the message pattern does not match anywhere makes
  \<^verbatim>\<open>resolveMessageLink\<close> throw the plain \<^verbatim>\<open>TypeError\<close> with the text
  ``The provided link is not a message link!'', with no lookup made.
\<close>

theorem resolve_malformed:
  assumes "exec patterns_message l = None"
  shows "resolveMessageLink client (Some l) options
           = (Inl (TypeError ''The provided link is not a message link!''), [])"
  using assms by (simp add: resolveMessageLink_def)

text \<open>
  Claim C3, as amended, at the input of the specification's example.
\<close>

theorem resolve_malformed_witness:
  "exec patterns_message (js ''not a link'') = None
   \<and> resolveMessageLink (client_of chan_open) (Some (js ''not a link'')) (Some 0)
       = (Inl (TypeError ''The provided link is not a message link!''), [])"
  using resolve_malformed[OF exec_not_a_link, of "client_of chan_open" "Some 0"] exec_not_a_link
  by simp


text \<open>
  Claim C3 as stated fails: the error thrown for \<open>not a link\<close> is the plain
  \<^verbatim>\<open>TypeError\<close>, the generic class, and not an instance of the class the file declares
  (\<^verbatim>\<open>MessageResolveError\<close>), which the function keeps for the channel and permission
  failures.
\<close>

theorem malformed_error_kind_counterexample:
  "fst (resolveMessageLink (client_of chan_open) (Some (js ''not a link'')) (Some 0))
     = Inl (TypeError ''The provided link is not a message link!'')
   \<and> generic_TypeError (TypeError ''The provided link is not a message link!'' :: unit error)"
  using exec_not_a_link
  by (simp add: resolveMessageLink_def generic_TypeError_def instanceof_TypeError_def
      instanceof_MessageResolveError_def)

text \<open>
  Claim C9, as amended, at a concrete input: the link of the specification inside a
  sentence and followed by four more digits. The match starts at the link, eighteen
  digits are captured as the message id and both lookups are made with the ids of the
  link.
\<close>

theorem resolve_unanchored_witness:
  "exec patterns_message (js ''see '' @ link1 @ js ''9999 for details'')
      = Some \<lparr>index = 4, whole = link1,
          groups = [(5, js ''333333333333333333''), (4, js ''222222222222222222''),
                    (3, js ''111111111111111111''), (1, js ''https'')]\<rparr>
   \<and> resolveMessageLink (client_of chan_open)
          (Some (js ''see '' @ link1 @ js ''9999 for details'')) (Some 0)
       = (Inr 7, [ChannelFetch (Some (js ''222222222222222222'')),
                  MessageFetch (Some (js ''333333333333333333''))])"
proof -
  have e: "exec patterns_message (js ''see '' @ link1 @ js ''9999 for details'')
      = Some \<lparr>index = 4, whole = link1,
     groups = [(5, js ''333333333333333333''), (4, js ''222222222222222222''),
               (3, js ''111111111111111111''), (1, js ''https'')]\<rparr>"
    by (simp add: exec_def match_here_def pattern_defs js_def link1_def digit_def rep_numeral)
  have l: "message_link (js ''https://discord.com'') (js ''111111111111111111'')
             (js ''222222222222222222'') (js ''333333333333333333'') = link1"
    by (simp add: message_link_def link1_def js_def)
  have b: "js ''https://discord.com'' \<in> set link_bases"
    by (simp add: link_bases_def js_def)
  have s: "snowflake_text (js ''111111111111111111'')" "snowflake_text (js ''222222222222222222'')"
    "snowflake_text (js ''333333333333333333'')"
    by (simp_all add: snowflake_text_def js_def digit_def)
  from resolve_unanchored[OF b disjI1[OF s(1)] s(2) s(3), of "js ''see ''" "js ''9999 for details''"
      "client_of chan_open" "Some 0"]
  have "resolveMessageLink (client_of chan_open)
          (Some (js ''see '' @ link1 @ js ''9999 for details'')) (Some 0)
       = (Inr 7, [ChannelFetch (Some (js ''222222222222222222'')),
                  MessageFetch (Some (js ''333333333333333333''))])"
    unfolding l e by (simp add: grp_def client_of_def chan_open_def denied_def)
  with e show ?thesis by simp
qed

text \<open>
  Claim C6. The link of the example matches the message pattern with the three ids as
  captures; the first lookup of \<^verbatim>\<open>resolveMessageLink\<close> is the channel lookup with the
  second id, whatever the client; and when that lookup gives a text channel the user may
  see, the lookups are the channel lookup with the second id and then the message lookup
  with the third, and the outcome is that of the message lookup.
\<close>

theorem message_link_happy_path:
  "exec patterns_message link1 = Some \<lparr>index = 0, whole = link1,
       groups = [(5, js ''333333333333333333''), (4, js ''222222222222222222''),
                 (3, js ''111111111111111111''), (1, js ''https'')]\<rparr>
   \<and> take 1 (snd (resolveMessageLink client (Some link1) options))
       = [ChannelFetch (Some (js ''222222222222222222''))]
   \<and> (channels_fetch client (Some (js ''222222222222222222'')) = Inr channel
        \<longrightarrow> isText channel \<longrightarrow> denied client channel options = Inr False
        \<longrightarrow> resolveMessageLink client (Some link1) options
            = (case messages_fetch channel (Some (js ''333333333333333333'')) of
                 Inl x \<Rightarrow> Inl (Rejected x) | Inr msg \<Rightarrow> Inr msg,
               [ChannelFetch (Some (js ''222222222222222222'')),
                MessageFetch (Some (js ''333333333333333333''))]))"
proof (intro conjI impI)
  show "exec patterns_message link1 = Some \<lparr>index = 0, whole = link1,
       groups = [(5, js ''333333333333333333''), (4, js ''222222222222222222''),
                 (3, js ''111111111111111111''), (1, js ''https'')]\<rparr>"
    by (rule exec_link1)
  show "take 1 (snd (resolveMessageLink client (Some link1) options))
       = [ChannelFetch (Some (js ''222222222222222222''))]"
    using resolve_matched(2)[OF exec_link1, of client options] by (simp add: grp_def)
next
  assume "channels_fetch client (Some (js ''222222222222222222'')) = Inr channel"
    and "isText channel" and "denied client channel options = Inr False"
  then show "resolveMessageLink client (Some link1) options
            = (case messages_fetch channel (Some (js ''333333333333333333'')) of
                 Inl x \<Rightarrow> Inl (Rejected x) | Inr msg \<Rightarrow> Inr msg,
               [ChannelFetch (Some (js ''222222222222222222'')),
                MessageFetch (Some (js ''333333333333333333''))])"
    by (simp add: resolveMessageLink_def exec_link1 grp_def split: sum.splits)
qed

text \<open>
  Claim C6, on a client whose channel is a text channel of a guild where every user has
  every permission.
\<close>

theorem message_link_happy_path_witness:
  "channels_fetch (client_of chan_open) (Some (js ''222222222222222222'')) = Inr chan_open
   \<and> isText chan_open \<and> denied (client_of chan_open) chan_open (Some 0) = Inr False
   \<and> resolveMessageLink (client_of chan_open) (Some link1) (Some 0)
       = (Inr 7, [ChannelFetch (Some (js ''222222222222222222'')),
                  MessageFetch (Some (js ''333333333333333333''))])"
  using message_link_happy_path[of "client_of chan_open" "Some 0" chan_open]
  by (simp add: client_of_def chan_open_def denied_def)

text \<open>
  Claim C4 as stated fails for a guild channel that is not a text channel (a voice
  channel, say): the user has no permission on it, and the call ends with the error
  ``Channel is not a text channel!'' and not with the permission error.
\<close>

theorem permission_denied_not_text_counterexample:
  "cls chan_voice = GuildChannel (\<lambda>u. Some (\<lambda>f. False))
   \<and> exec patterns_message link1 \<noteq> None
   \<and> resolveMessageLink (client_of chan_voice) (Some link1) (Some 0)
       = (Inl (MessageResolveError ''Channel is not a text channel!''),
          [ChannelFetch (Some (js ''222222222222222222''))])"
  by (simp add: resolveMessageLink_def exec_link1 grp_def client_of_def chan_voice_def)

text \<open>
  Claim C4, as amended. For a link that matches and a channel that is a text channel:
  a guild channel on which the user has no view-channel permission (or no permissions
  at all), a direct-message channel whose recipient is not the user, and a group channel
  none of whose recipients has the user name of the user, each end the call with the
  error ``User does not have permission!'', after the channel lookup and with no
  message lookup.
\<close>

theorem permission_denied:
  assumes "exec patterns_message l = Some match"
    and "channels_fetch client (grp match 4) = Inr channel"
    and "isText channel"
    and "(\<exists>permissionsFor. cls channel = GuildChannel permissionsFor
            \<and> (case permissionsFor asUser of None \<Rightarrow> True | Some perms \<Rightarrow> \<not> perms VIEW_CHANNEL))
       \<or> (\<exists>recipient_id. cls channel = DMChannel recipient_id
            \<and> users_resolveId client asUser \<noteq> Some recipient_id)
       \<or> (\<exists>recipients username. cls channel = PartialGroupDMChannel recipients
            \<and> users_resolve client asUser = Some username \<and> username \<notin> set recipients)"
  shows "resolveMessageLink client (Some l) (Some asUser)
           = (Inl (MessageResolveError ''User does not have permission!''),
              [ChannelFetch (grp match 4)])"
proof -
  from assms(4) have "denied client channel (Some asUser) = Inr True"
    by (auto simp: denied_def split: option.splits)
  with assms(1-3) show ?thesis
    by (simp add: resolveMessageLink_def)
qed

text \<open>
  Claim C4, as amended, on a guild channel, a direct-message channel and a group
  channel.
\<close>

theorem permission_denied_witness:
  "resolveMessageLink (client_of chan_hidden) (Some link1) (Some 0)
     = (Inl (MessageResolveError ''User does not have permission!''),
        [ChannelFetch (Some (js ''222222222222222222''))])
   \<and> resolveMessageLink (client_of chan_dm) (Some link1) (Some 0)
     = (Inl (MessageResolveError ''User does not have permission!''),
        [ChannelFetch (Some (js ''222222222222222222''))])
   \<and> resolveMessageLink (client_of chan_group) (Some link1) (Some 0)
     = (Inl (MessageResolveError ''User does not have permission!''),
        [ChannelFetch (Some (js ''222222222222222222''))])"
proof (intro conjI)
  show "resolveMessageLink (client_of chan_hidden) (Some link1) (Some 0)
     = (Inl (MessageResolveError ''User does not have permission!''),
        [ChannelFetch (Some (js ''222222222222222222''))])"
    using permission_denied[OF exec_link1, of "client_of chan_hidden" chan_hidden 0]
    by (simp add: grp_def client_of_def chan_hidden_def)
  show "resolveMessageLink (client_of chan_dm) (Some link1) (Some 0)
     = (Inl (MessageResolveError ''User does not have permission!''),
        [ChannelFetch (Some (js ''222222222222222222''))])"
    using permission_denied[OF exec_link1, of "client_of chan_dm" chan_dm 0]
    by (simp add: grp_def client_of_def chan_dm_def js_def)
  show "resolveMessageLink (client_of chan_group) (Some link1) (Some 0)
     = (Inl (MessageResolveError ''User does not have permission!''),
        [ChannelFetch (Some (js ''222222222222222222''))])"
    using permission_denied[OF exec_link1, of "client_of chan_group" chan_group 0]
    by (simp add: grp_def client_of_def chan_group_def js_def)
qed


section \<open>Properties of the parser\<close>

lemmas rule_defs = text_rule_def blockQuote_rule_def codeBlock_rule_def newline_rule_def escape_rule_def
  autolink_rule_def url_rule_def em_rule_def strong_rule_def u_rule_def strike_rule_def inlineCode_rule_def
  emoticon_rule_def br_rule_def spoiler_rule_def discordUser_rule_def discordChannel_rule_def
  discordRole_rule_def discordEmoji_rule_def discordEveryone_rule_def discordHere_rule_def

lemmas order_defs = order_codeBlock_def order_blockQuote_def order_newline_def order_escape_def
  order_autolink_def order_url_def order_strong_def order_del_def order_inlineCode_def order_br_def
  order_text_def

lemma rule_names [simp]:
  "rule_name text_rule = ''text''" "rule_name blockQuote_rule = ''blockQuote''"
  "rule_name codeBlock_rule = ''codeBlock''" "rule_name newline_rule = ''newline''"
  "rule_name escape_rule = ''escape''" "rule_name autolink_rule = ''autolink''"
  "rule_name url_rule = ''url''" "rule_name em_rule = ''em''" "rule_name strong_rule = ''strong''"
  "rule_name u_rule = ''u''" "rule_name strike_rule = ''strike''"
  "rule_name inlineCode_rule = ''inlineCode''" "rule_name emoticon_rule = ''emoticon''"
  "rule_name br_rule = ''br''" "rule_name spoiler_rule = ''spoiler''"
  "rule_name discordUser_rule = ''discordUser''" "rule_name discordChannel_rule = ''discordChannel''"
  "rule_name discordRole_rule = ''discordRole''" "rule_name discordEmoji_rule = ''discordEmoji''"
  "rule_name discordEveryone_rule = ''discordEveryone''" "rule_name discordHere_rule = ''discordHere''"
  by (simp_all add: rule_defs)

lemma rule_orders [simp]:
  "rule_order text_rule = 25" "rule_order blockQuote_rule = 6"
  "rule_order codeBlock_rule = 4" "rule_order newline_rule = 10"
  "rule_order escape_rule = 12" "rule_order autolink_rule = 14"
  "rule_order url_rule = 16" "rule_order em_rule = 21" "rule_order strong_rule = 21"
  "rule_order u_rule = 21" "rule_order strike_rule = 22"
  "rule_order inlineCode_rule = 23" "rule_order emoticon_rule = 25"
  "rule_order br_rule = 24" "rule_order spoiler_rule = 0"
  "rule_order discordUser_rule = 21" "rule_order discordChannel_rule = 21"
  "rule_order discordRole_rule = 21" "rule_order discordEmoji_rule = 21"
  "rule_order discordEveryone_rule = 21" "rule_order discordHere_rule = 21"
  by (simp_all add: rule_defs order_defs)

lemma rule_qualities [simp]:
  "rule_quality text_rule = None" "rule_quality blockQuote_rule = None"
  "rule_quality codeBlock_rule = None" "rule_quality newline_rule = None"
  "rule_quality escape_rule = None" "rule_quality autolink_rule = None"
  "rule_quality url_rule = None"
  "rule_quality em_rule = Some (\<lambda>capture. 10 * length (whole capture) + 2)"
  "rule_quality strong_rule = Some (\<lambda>capture. 10 * length (whole capture) + 1)"
  "rule_quality u_rule = Some (\<lambda>capture. 10 * length (whole capture))"
  "rule_quality strike_rule = None"
  "rule_quality inlineCode_rule = None" "rule_quality emoticon_rule = None"
  "rule_quality br_rule = None" "rule_quality spoiler_rule = None"
  "rule_quality discordUser_rule = None" "rule_quality discordChannel_rule = None"
  "rule_quality discordRole_rule = None" "rule_quality discordEmoji_rule = None"
  "rule_quality discordEveryone_rule = None" "rule_quality discordHere_rule = None"
  by (simp_all add: rule_defs)

lemma ruleList_eq:
  "ruleList = [spoiler_rule, codeBlock_rule, blockQuote_rule, newline_rule, escape_rule, autolink_rule,
     url_rule, em_rule, strong_rule, u_rule, discordChannel_rule, discordEmoji_rule,
     discordEveryone_rule, discordHere_rule, discordRole_rule, discordUser_rule, strike_rule,
     inlineCode_rule, br_rule, emoticon_rule, text_rule]"
  by (simp add: ruleList_def rules_def rule_before_def secondaryOrder_def js_def)


lemma anchored_fail: "anchored r \<Longrightarrow> m r ks (MS (Some c) xs cs) = None"
  by (induction r rule: anchored.induct) auto

lemma exec_from_anchored: "anchored r \<Longrightarrow> exec_from r (Some c) xs i = None"
  by (induction xs arbitrary: c i) (auto simp: match_here_def anchored_fail)

lemma exec_anchored:
  "anchored r \<Longrightarrow> exec r src =
     (case match_here r None src of None \<Rightarrow> None
      | Some (w, g) \<Rightarrow> Some \<lparr>index = 0, whole = w, groups = g\<rparr>)"
  by (cases src) (auto simp: exec_def exec_from_anchored split: option.splits)

lemmas re_defs = text_re_def blockQuote_re_def codeBlock_re_def newline_re_def escape_re_def
  autolink_re_def url_re_def em_re_def strong_re_def u_re_def strike_re_def inlineCode_re_def
  emoticon_re_def br_re_def spoiler_re_def discordUser_re_def discordChannel_re_def
  discordRole_re_def discordEmoji_re_def discordEveryone_re_def discordHere_re_def

lemma anchored_res [simp]:
  "anchored text_re" "anchored blockQuote_re" "anchored codeBlock_re" "anchored newline_re"
  "anchored escape_re" "anchored autolink_re" "anchored url_re" "anchored em_re" "anchored strong_re"
  "anchored u_re" "anchored strike_re" "anchored inlineCode_re" "anchored emoticon_re" "anchored br_re"
  "anchored spoiler_re" "anchored discordUser_re" "anchored discordChannel_re" "anchored discordRole_re"
  "anchored discordEmoji_re" "anchored discordEveryone_re" "anchored discordHere_re"
  by (simp_all add: re_defs seqs_def)

lemma anchored_block_syntax [simp]: "anchored block_syntax_re"
  by (simp add: block_syntax_re_def seqs_def)

lemma exec_prev_line:
  "exec prev_line_re s =
     exec_from (Alt (Seq Bol Eol) (Seq (Chr 10) (Seq (Star True (Chr 32)) (Seq Eol Eps)))) None s 0"
  by (simp add: exec_def prev_line_re_def seqs_def)

lemma nestedParse_numeral:
  "nestedParse (numeral k) [] state = Some (Inr ([], state))"
  "nestedParse (numeral k) (x # xs) state =
     (case select_rule ruleList None (x # xs) state of
        None \<Rightarrow> Some (Inl ''Could not find a matching rule for the below content.'')
      | Some (rule, capture, quality) \<Rightarrow>
          if index capture \<noteq> 0
          then Some (Inl ''`match` must return a capture starting at index 0'')
          else (case rule_parse rule capture (\<lambda>src st. nodes_only (nestedParse (pred_numeral k) src st)) state of
                  None \<Rightarrow> None
                | Some (Inl e) \<Rightarrow> Some (Inl e)
                | Some (Inr (parsed, state')) \<Rightarrow>
                    (case nestedParse (pred_numeral k) (drop (length (whole capture)) (x # xs))
                            (state'\<lparr>prevCapture := Some (whole capture)\<rparr>) of
                       None \<Rightarrow> None
                     | Some (Inl e) \<Rightarrow> Some (Inl e)
                     | Some (Inr (result, state'')) \<Rightarrow>
                         Some (Inr ((whole capture, parsed) # result, state'')))))"
  by (simp_all only: numeral_eq_Suc nestedParse.simps)

lemmas eval_defs = try_rule_def parse_def parse_spans_def preprocess_def replaceAll_def initial_state_def
  nestedParse_numeral ruleList_eq rule_defs order_defs re_defs seqs_def lit_def lits_def opt_def plus_def
  lazy_plus_def anychar_def inlineRegex_def blockRegex_def anyScopeRegex_def blockQuote_match_def
  blockQuote_parse_def block_syntax_re_def line_syntax_re_def truthy_def or_empty_def
  exec_anchored match_here_def grp_def nodes_only_def js_def digit_def upper_def lower_def space_def
  isWordChar_def text_special_def parseInline_def trim_def clear_caps_def sanitize_def shrug_def
  exec_prev_line replace_all_def replace_first_def no_text_def dollar1_def
  fenced_example_def fenced_in_text_example_def two_quotes_example_def
  INLINE_CODE_ESCAPE_BACKTICKS_R_def

lemma parse_user_mention: "parse (js ''<@123456789012345678>'') = Some (Inr [DiscordUser (Some (js ''123456789012345678''))])"
  by (simp add: eval_defs)


lemma sanitize_user_mention: "sanitize (js ''<@123456789012345678>'') = Some (Inr (js '' ''))"
  by (simp add: sanitize_def parse_user_mention) (simp add: js_def)

lemma parse_fenced: "parse fenced_example = Some (Inr [CodeBlock (js ''js'') (Some (js ''code'')) False])"
  by (simp add: eval_defs)

lemma parse_two_quotes: "parse two_quotes_example
   = Some (Inr [BlockQuote [Text (Some [97]), Br], Text (Some [98]), Br, Text (Some [62, 32, 99])])"
  by (simp add: eval_defs)


lemma sanitize_fenced_in_text: "sanitize fenced_in_text_example = Some (Inr (js ''x **code** y''))"
  by (simp add: eval_defs)


lemma sanitize_fenced: "sanitize fenced_example = Some (Inr (js ''code''))"
  by (simp add: sanitize_def parse_fenced or_empty_def js_def)

lemma nested_quote_state:
  "nestedParse 5 (js ''> hi'') initial_state
     = Some (Inr ([(js ''> hi'', BlockQuote [Text (Some (js ''hi''))])],
                  \<lparr>inline = Some True, inQuote = Some True, prevCapture = Some (js ''> hi'')\<rparr>))"
  by (simp add: eval_defs)

text \<open>
  \<^verbatim>\<open>sanitizeNode\<close> descends into every container: the text of a tree is the
  concatenation of the texts of its leaves, in their order.
\<close>

lemma concat_leaves:
  "(\<And>n. n \<in> set content \<Longrightarrow> sanitizeNode n = concat (map sanitizeNode (leaves n)))
   \<Longrightarrow> concat (map sanitizeNode content) = concat (map sanitizeNode (concat (map leaves content)))"
  by (induction content) simp_all

lemma sanitizeNode_leaves: "sanitizeNode n = concat (map sanitizeNode (leaves n))"
  by (induction n rule: sanitizeNode.induct) (simp_all add: concat_leaves)

lemma sanitize_leaves:
  assumes "parse source = Some (Inr parsed)"
  shows "sanitize source = Some (Inr (concat (map sanitizeNode (concat (map leaves parsed)))))"
proof -
  have "concat (map sanitizeNode parsed) = concat (map sanitizeNode (concat (map leaves parsed)))"
    by (rule concat_leaves) (rule sanitizeNode_leaves)
  with assms show ?thesis by (simp add: sanitize_def)
qed

lemma reference_space: "platform_reference r \<Longrightarrow> sanitizeNode r = [32]"
  by (cases r) simp_all

lemma parse_mention_nested:
  "parse mention_nested_example
     = Some (Inr [BlockQuote [Strong [DiscordUser (Some (js ''1'')), Text (Some (js ''a'')), Spoiler [DiscordHere]]]])"
  by (simp add: eval_defs mention_nested_example_def)

lemma parse_fenced_nested:
  "parse fenced_nested_example
     = Some (Inr [BlockQuote [Spoiler [CodeBlock [] (Some (js ''*x*'')) True]]])"
  by (simp add: eval_defs fenced_nested_example_def)

lemma parse_fenced_in_spoiler:
  "parse fenced_in_spoiler_example
     = Some (Inr [Spoiler [CodeBlock (js ''js'') (Some (js ''**x**'')) False]])"
  by (simp add: eval_defs fenced_in_spoiler_example_def)

lemma parse_strong_mention:
  "parse (js ''**<@1>**'') = Some (Inr [Strong [DiscordUser (Some (js ''1''))]])"
  by (simp add: eval_defs)

text \<open>
  Claim C7. Every node of a platform reference (user, channel and role mention, everyone,
  here, custom emoji) is sanitized to one space, wherever it stands in the message: when
  the leaves of the parsed message are \<open>ns1\<close>, a platform reference and \<open>ns2\<close>, at any
  depth inside bold text, quotes, spoilers and the other containers, the sanitized text
  is the text of \<open>ns1\<close>, one space, and the text of \<open>ns2\<close>. So the text
  \<open><@123456789012345678>\<close> is sanitized to one space, and a quote with the bold text
  \<open><@1>a||@here||\<close> to the three characters space, \<open>a\<close>, space. (The case
  \<^verbatim>\<open>emoji\<close> of the \<^verbatim>\<open>switch\<close> returns the same space; no rule of the file produces a
  node of that type.)
\<close>

theorem mention_redaction:
  "sanitizeNode (DiscordUser i) = js '' ''
   \<and> sanitizeNode (DiscordChannel i) = js '' ''
   \<and> sanitizeNode (DiscordRole i) = js '' ''
   \<and> sanitizeNode DiscordEveryone = js '' ''
   \<and> sanitizeNode DiscordHere = js '' ''
   \<and> sanitizeNode (DiscordEmoji animated name i) = js '' ''
   \<and> (parse source = Some (Inr parsed)
        \<longrightarrow> concat (map leaves parsed) = ns1 @ [reference] @ ns2
        \<longrightarrow> platform_reference reference
        \<longrightarrow> sanitize source
            = Some (Inr (concat (map sanitizeNode ns1) @ js '' '' @ concat (map sanitizeNode ns2))))
   \<and> sanitize (js ''<@123456789012345678>'') = Some (Inr (js '' ''))
   \<and> parse mention_nested_example
       = Some (Inr [BlockQuote [Strong [DiscordUser (Some (js ''1'')), Text (Some (js ''a'')),
                                         Spoiler [DiscordHere]]]])
   \<and> sanitize mention_nested_example = Some (Inr (js '' a ''))"
proof (intro conjI impI)
  assume "parse source = Some (Inr parsed)"
    and "concat (map leaves parsed) = ns1 @ [reference] @ ns2"
    and "platform_reference reference"
  then show "sanitize source
            = Some (Inr (concat (map sanitizeNode ns1) @ js '' '' @ concat (map sanitizeNode ns2)))"
    by (simp add: sanitize_leaves reference_space js_def)
next
  show "sanitize (js ''<@123456789012345678>'') = Some (Inr (js '' ''))"
    by (rule sanitize_user_mention)
  show "parse mention_nested_example
       = Some (Inr [BlockQuote [Strong [DiscordUser (Some (js ''1'')), Text (Some (js ''a'')),
                                         Spoiler [DiscordHere]]]])"
    by (rule parse_mention_nested)
  show "sanitize mention_nested_example = Some (Inr (js '' a ''))"
    by (simp add: sanitize_def parse_mention_nested or_empty_def js_def)
qed (simp_all add: js_def)

text \<open>
  Claim C7, at a concrete input: a user mention in bold text. The message parses to one
  bold node that holds the mention, and is sanitized to one space.
\<close>

theorem mention_redaction_witness:
  "parse (js ''**<@1>**'') = Some (Inr [Strong [DiscordUser (Some (js ''1''))]])
   \<and> concat (map leaves [Strong [DiscordUser (Some (js ''1''))]]) = [] @ [DiscordUser (Some (js ''1''))] @ []
   \<and> platform_reference (DiscordUser (Some (js ''1'')))
   \<and> sanitize (js ''**<@1>**'') = Some (Inr (js '' ''))"
  using mention_redaction[where source = "js ''**<@1>**''" and parsed = "[Strong [DiscordUser (Some (js ''1''))]]"
      and ?ns1.0 = "[]" and reference = "DiscordUser (Some (js ''1''))" and ?ns2.0 = "[]"]
    parse_strong_mention
  by (simp add: js_def)

text \<open>
  Claim C8. The text \<open>```js\<close>, line feed, \<open>code\<close>, line feed, \<open>```\<close> parses to one
  fenced-code node with the language \<open>js\<close> and the body \<open>code\<close>. The rule never calls
  the parser it is given, so the body stays a string; sanitizing a fenced-code node
  returns its body as it is. This holds wherever the node stands in the message: when
  the leaves of the parsed message are \<open>ns1\<close>, a fenced-code node and \<open>ns2\<close>, at any
  depth inside quotes, spoilers and the other containers, the sanitized text is the text
  of \<open>ns1\<close>, the body unchanged, and the text of \<open>ns2\<close>. So a body with markup comes
  out of \<^verbatim>\<open>sanitize\<close> unchanged inside a longer message, and inside a spoiler inside
  a quote.
\<close>

theorem fenced_code_verbatim:
  "parse fenced_example
     = Some (Inr [CodeBlock (js ''js'') (Some (js ''code'')) False])
   \<and> rule_parse codeBlock_rule capture parser state
     = Some (Inr (CodeBlock (trim (or_empty (grp capture 2))) (grp capture 3) (truthy (inQuote state)), state))
   \<and> sanitizeNode (CodeBlock lang (Some body) inq) = body
   \<and> (parse source = Some (Inr parsed)
        \<longrightarrow> concat (map leaves parsed) = ns1 @ [CodeBlock lang (Some body) inq] @ ns2
        \<longrightarrow> sanitize source
            = Some (Inr (concat (map sanitizeNode ns1) @ body @ concat (map sanitizeNode ns2))))
   \<and> sanitize fenced_example = Some (Inr (js ''code''))
   \<and> sanitize fenced_in_text_example
     = Some (Inr (js ''x **code** y''))
   \<and> parse fenced_nested_example
       = Some (Inr [BlockQuote [Spoiler [CodeBlock [] (Some (js ''*x*'')) True]]])
   \<and> sanitize fenced_nested_example = Some (Inr (js ''*x*''))"
proof (intro conjI impI)
  assume "parse source = Some (Inr parsed)"
    and "concat (map leaves parsed) = ns1 @ [CodeBlock lang (Some body) inq] @ ns2"
  then show "sanitize source
            = Some (Inr (concat (map sanitizeNode ns1) @ body @ concat (map sanitizeNode ns2)))"
    by (simp add: sanitize_leaves or_empty_def)
next
  show "parse fenced_example = Some (Inr [CodeBlock (js ''js'') (Some (js ''code'')) False])"
    by (rule parse_fenced)
  show "sanitize fenced_example = Some (Inr (js ''code''))"
    by (rule sanitize_fenced)
  show "sanitize fenced_in_text_example = Some (Inr (js ''x **code** y''))"
    by (rule sanitize_fenced_in_text)
  show "parse fenced_nested_example
       = Some (Inr [BlockQuote [Spoiler [CodeBlock [] (Some (js ''*x*'')) True]]])"
    by (rule parse_fenced_nested)
  show "sanitize fenced_nested_example = Some (Inr (js ''*x*''))"
    by (simp add: sanitize_def parse_fenced_nested or_empty_def js_def)
qed (simp_all add: codeBlock_rule_def or_empty_def)

text \<open>
  Claim C8, at a concrete input: a fenced block with bold markup in its body, inside a
  spoiler. The message parses to a spoiler that holds the fenced-code node, and is
  sanitized to the body with its markup.
\<close>

theorem fenced_code_verbatim_witness:
  "parse fenced_in_spoiler_example
     = Some (Inr [Spoiler [CodeBlock (js ''js'') (Some (js ''**x**'')) False]])
   \<and> concat (map leaves [Spoiler [CodeBlock (js ''js'') (Some (js ''**x**'')) False]])
       = [] @ [CodeBlock (js ''js'') (Some (js ''**x**'')) False] @ []
   \<and> sanitize fenced_in_spoiler_example = Some (Inr (js ''**x**''))"
  using fenced_code_verbatim[where source = fenced_in_spoiler_example
      and parsed = "[Spoiler [CodeBlock (js ''js'') (Some (js ''**x**'')) False]]"
      and ?ns1.0 = "[]" and lang = "js ''js''" and body = "js ''**x**''" and inq = False and ?ns2.0 = "[]"]
    parse_fenced_in_spoiler
  by simp

text \<open>
  Claim C5 fails on the code. The rule sets \<^verbatim>\<open>inQuote\<close> before the nested parse and
  afterwards assigns \<^verbatim>\<open>state.inQuote || false\<close>, which keeps the value it has just set:
  after the quote \<open>> hi\<close>, parsed from the initial state (where the flag is unset), the
  flag is true. From then on the rule's \<^verbatim>\<open>match\<close> refuses every quote: in the text
  \<open>> a\<close>, \<open>b\<close>, \<open>> c\<close> (three lines) the third line is parsed as plain text.
\<close>

theorem blockQuote_flag_not_restored:
  "nestedParse 5 (js ''> hi'') initial_state
     = Some (Inr ([(js ''> hi'', BlockQuote [Text (Some (js ''hi''))])],
                  \<lparr>inline = Some True, inQuote = Some True, prevCapture = Some (js ''> hi'')\<rparr>))
   \<and> inQuote initial_state = None
   \<and> parse two_quotes_example
     = Some (Inr [BlockQuote [Text (Some [97]), Br], Text (Some [98]), Br, Text (Some [62, 32, 99])])"
  using nested_quote_state parse_two_quotes by (simp add: initial_state_def)

section \<open>Mentions with any number of digits\<close>

lemma clear_caps_Nil [simp]: "clear_caps [] cs = cs"
  by (simp add: clear_caps_def)

lemma star_cls_fail:
  "c \<notin> set xs \<Longrightarrow> m (Star True (Cls P)) (KRe (Seq (Chr c) r) # ks) (MS p xs cs) = None"
  by (induction xs arbitrary: p) auto

lemma star_cls_skip:
  "\<not> P x \<Longrightarrow> m (Star True (Cls P)) ks (MS p (x # xs) cs) = run ks (MS p (x # xs) cs)"
  by simp

lemma star_chr_skip:
  "x \<noteq> c \<Longrightarrow> m (Star True (Chr c)) ks (MS p (x # xs) cs) = run ks (MS p (x # xs) cs)"
  by simp

lemmas m_star_greedy = m.simps(8)
lemmas m_star_lazy = m.simps(9)

lemma star_cls_success:
  "list_all P d \<Longrightarrow> (ys = [] \<or> \<not> P (hd ys)) \<Longrightarrow>
   run ks (MS (if d = [] then p else Some (last d)) ys cs) = Some t \<Longrightarrow>
   m (Star True (Cls P)) ks (MS p (d @ ys) cs) = Some t"
proof (induction d arbitrary: p)
  case Nil
  then show ?case by (cases ys) auto
next
  case (Cons x d)
  from Cons.prems have "m (Star True (Cls P)) ks (MS (Some x) (d @ ys) cs) = Some t"
    by (intro Cons.IH) (auto split: if_splits)
  with Cons.prems show ?case by simp
qed

lemma digit_not:
  "list_all digit d \<Longrightarrow> c < 48 \<Longrightarrow> c \<noteq> x \<Longrightarrow> m (Chr c) ks (MS p (d @ x # ys) cs) = None"
  by (cases d) (auto simp: digit_def)

lemma preprocess_id:
  "\<forall>c \<in> set s. c \<noteq> 9 \<and> c \<noteq> 12 \<and> c \<noteq> 13 \<Longrightarrow> preprocess s = s"
proof -
  assume a: "\<forall>c \<in> set s. c \<noteq> 9 \<and> c \<noteq> 12 \<and> c \<noteq> 13"
  have 1: "\<forall>c \<in> set s. c \<noteq> 13 \<Longrightarrow> cr_newline s = s"
    by (induction s rule: cr_newline.induct) auto
  have 2: "\<And>c w. c \<notin> set s \<Longrightarrow> replaceAll c w s = s"
    by (induction s) (auto simp: replaceAll_def)
  from a have "9 \<notin> set s" "12 \<notin> set s" by auto
  with a show ?thesis
    by (simp add: preprocess_def 1 2)
qed

lemma digits_plain: "list_all digit d \<Longrightarrow> \<forall>c \<in> set d. c \<noteq> 9 \<and> c \<noteq> 12 \<and> c \<noteq> 13 \<and> c \<noteq> 58"
  by (auto simp: list_all_iff digit_def)

lemmas select_defs = try_rule_def ruleList_eq rule_defs order_defs re_defs seqs_def lit_def lits_def opt_def plus_def
  lazy_plus_def anychar_def inlineRegex_def blockRegex_def anyScopeRegex_def blockQuote_match_def
  truthy_def or_empty_def exec_anchored match_here_def grp_def digit_def upper_def lower_def space_def
  isWordChar_def text_special_def shrug_def exec_prev_line

lemma select_user:
  assumes "list_all digit d"
  shows "select_rule ruleList None (60 # 64 # d @ [62]) initial_state
     = Some (discordUser_rule, \<lparr>index = 0, whole = 60 # 64 # d @ [62], groups = [(1, d)]\<rparr>, 0)"
proof -
  from assms have c: "58 \<notin> set (d @ [62])" by (auto simp: list_all_iff digit_def)
  have s: "m (Star True (Cls digit)) [KGrp 1 (d @ [62]), KRe (Seq (Chr 62) Eps)] (MS (Some 64) (d @ [62]) [])
     = Some (MS (Some 62) [] [(1, d)])"
    by (rule star_cls_success[OF assms]) (auto simp: digit_def simp del: m_star_greedy)
  show ?thesis
    using assms c s digit_not[OF assms, of 38 62 _ _ "[]"] digit_not[OF assms, of 33 62 _ _ "[]"]
    by (simp add: select_defs initial_state_def star_cls_fail star_cls_skip star_chr_skip
        del: m_star_greedy)
qed


lemma select_channel:
  assumes "list_all digit d"
  shows "select_rule ruleList None (60 # 35 # d @ [62]) initial_state
     = Some (discordChannel_rule, \<lparr>index = 0, whole = 60 # 35 # d @ [62], groups = [(1, d)]\<rparr>, 0)"
proof -
  from assms have c: "58 \<notin> set (d @ [62])" by (auto simp: list_all_iff digit_def)
  have s: "m (Star True (Cls digit)) [KGrp 1 (d @ [62]), KRe (Seq (Chr 62) Eps)] (MS (Some 35) (d @ [62]) [])
     = Some (MS (Some 62) [] [(1, d)])"
    by (rule star_cls_success[OF assms]) (auto simp: digit_def simp del: m_star_greedy)
  show ?thesis
    using assms c s
    by (simp add: select_defs initial_state_def star_cls_fail star_cls_skip star_chr_skip
        del: m_star_greedy)
qed

lemma parse_user_digits:
  assumes "list_all digit d"
  shows "parse (js ''<@'' @ d @ js ''>'') = Some (Inr [DiscordUser (Some d)])"
proof -
  have p: "preprocess (60 # 64 # d @ [62]) = 60 # 64 # d @ [62]"
    using digits_plain[OF assms] by (intro preprocess_id) auto
  show ?thesis
    by (simp add: parse_def parse_spans_def js_def p select_user[OF assms] discordUser_rule_def
        nodes_only_def grp_def)
qed

lemma parse_channel_digits:
  assumes "list_all digit d"
  shows "parse (js ''<#'' @ d @ js ''>'') = Some (Inr [DiscordChannel (Some d)])"
proof -
  have p: "preprocess (60 # 35 # d @ [62]) = 60 # 35 # d @ [62]"
    using digits_plain[OF assms] by (intro preprocess_id) auto
  show ?thesis
    by (simp add: parse_def parse_spans_def js_def p select_channel[OF assms] discordChannel_rule_def
        nodes_only_def grp_def)
qed

text \<open>
  Claim C10. For every string \<open>d\<close> of digits, of any length and also empty, the text
  \<open><@d>\<close> parses to one user mention with the id \<open>d\<close>, the text \<open><#d>\<close> to one
  channel mention with the id \<open>d\<close>, and both are sanitized to one space.
\<close>

theorem mention_any_digits:
  assumes "list_all digit d"
  shows "parse (js ''<@'' @ d @ js ''>'') = Some (Inr [DiscordUser (Some d)])
       \<and> parse (js ''<#'' @ d @ js ''>'') = Some (Inr [DiscordChannel (Some d)])
       \<and> sanitize (js ''<@'' @ d @ js ''>'') = Some (Inr (js '' ''))
       \<and> sanitize (js ''<#'' @ d @ js ''>'') = Some (Inr (js '' ''))"
  using parse_user_digits[OF assms] parse_channel_digits[OF assms]
  by (simp add: sanitize_def) (simp add: js_def)

text \<open>
  Claim C10, at the empty digit string (the texts \<open><@>\<close> and \<open><#>\<close>) and at a string of
  two digits.
\<close>

theorem mention_any_digits_witness:
  "list_all digit []
   \<and> parse (js ''<@>'') = Some (Inr [DiscordUser (Some [])])
   \<and> parse (js ''<#>'') = Some (Inr [DiscordChannel (Some [])])
   \<and> sanitize (js ''<@>'') = Some (Inr (js '' ''))
   \<and> sanitize (js ''<#>'') = Some (Inr (js '' ''))
   \<and> list_all digit (js ''42'')
   \<and> parse (js ''<@42>'') = Some (Inr [DiscordUser (Some (js ''42''))])"
  using mention_any_digits[of "[]"] mention_any_digits[of "js ''42''"]
  by (simp add: js_def digit_def)


section \<open>The parser always returns\<close>


lemma kmin_simps [simp]:
  "kmin [] = 0" "kmin (KRe r # ks) = minlen r + kmin ks"
  "kmin (KGrp n w # ks) = kmin ks" "kmin (KLoop g r k # ks) = kmin ks"
  by (simp_all add: kmin_def)

lemma m_consumes:
  "\<forall>t. m r ks s = Some t \<longrightarrow> length (rest t) + minlen r + kmin ks \<le> length (rest s)"
  "\<forall>t. run ks0 s0 = Some t \<longrightarrow> length (rest t) + kmin ks0 \<le> length (rest s0)"
proof (induction r ks s and ks0 s0 rule: m_run.induct)
  case (7 a b ks s)
  then show ?case by (auto split: option.splits)
next
  case (8 r ks p xs cs)
  then show ?case by (auto split: option.splits)
next
  case (9 r ks p xs cs)
  then show ?case by (auto split: option.splits)
next
  case (11 n ks p xs cs)
  then show ?case by (auto split: option.splits if_splits)
next
  case (12 b r ks p xs cs)
  then show ?case by (auto split: option.splits if_splits)
qed (auto split: if_splits)


lemma caps_le_simps [simp]:
  "caps_le B []"
  "caps_le B ((n, v) # cs) = (length v \<le> B \<and> caps_le B cs)"
  by (auto simp: caps_le_def)

lemma caps_le_clear [simp]: "caps_le B cs \<Longrightarrow> caps_le B (clear_caps ns cs)"
  by (auto simp: caps_le_def clear_caps_def)

lemma caps_bound:
  "\<forall>t B. m r ks s = Some t \<longrightarrow> caps_le B (caps s) \<longrightarrow> list_all (frame_le B) ks
      \<longrightarrow> length (rest s) \<le> B \<longrightarrow> caps_le B (caps t)"
  "\<forall>t B. run ks0 s0 = Some t \<longrightarrow> caps_le B (caps s0) \<longrightarrow> list_all (frame_le B) ks0
      \<longrightarrow> length (rest s0) \<le> B \<longrightarrow> caps_le B (caps t)"
proof (induction r ks s and ks0 s0 rule: m_run.induct)
  case (7 a b ks s)
  then show ?case by (auto split: option.splits)
next
  case (8 r ks p xs cs)
  then show ?case by (auto split: option.splits)
next
  case (9 r ks p xs cs)
  then show ?case by (auto split: option.splits)
next
  case (11 n ks p xs cs)
  then show ?case by (auto split: option.splits if_splits)
next
  case (12 b r ks p xs cs)
  then show ?case by (auto split: option.splits if_splits)
qed (auto split: if_splits)

lemma exec_anchored_props:
  assumes "anchored r" and "0 < minlen r" and "exec r src = Some c"
  shows "index c = 0" and "whole c \<noteq> []" and "whole c = take (length (whole c)) src"
    and "length (whole c) \<le> length src" and "caps_le (length src) (groups c)"
proof -
  from assms(1,3) obtain t where t: "m r [] (MS None src []) = Some t"
    and c: "c = \<lparr>index = 0, whole = take (length src - length (rest t)) src, groups = caps t\<rparr>"
    by (auto simp: exec_anchored match_here_def split: option.splits)
  from m_consumes(1)[of r "[]" "MS None src []"] t assms(2)
  have l: "length (rest t) < length src" by auto
  show "index c = 0" by (simp add: c)
  from l show "whole c \<noteq> []" by (auto simp: c)
  show "whole c = take (length (whole c)) src" by (simp add: c)
  show "length (whole c) \<le> length src" by (simp add: c)
  from caps_bound(1)[of r "[]" "MS None src []"] t
  show "caps_le (length src) (groups c)" by (auto simp: c)
qed

lemma text_lazy_total:
  "m (Star False (Cls (\<lambda>c. True)))
     [KRe (Seq (Look True (Alt a1 (Alt a2 (Alt a3 (Alt a4 Eol))))) Eps)] (MS p xs cs) \<noteq> None"
proof (induction xs arbitrary: p)
  case Nil
  have "m (Alt a1 (Alt a2 (Alt a3 (Alt a4 Eol)))) [] (MS p [] cs) \<noteq> None"
    by (auto split: option.splits)
  then show ?case by (auto split: option.splits)
next
  case (Cons x xs)
  then show ?case by (auto split: option.splits)
qed

lemma text_matches: "exec text_re (x # xs) \<noteq> None"
  using text_lazy_total
  by (auto simp: exec_anchored match_here_def text_re_def seqs_def lazy_plus_def anychar_def
      split: option.splits simp del: m.simps(9))


lemma try_rule_sound:
  "try_rule a best src st = Some (r, c, q) \<Longrightarrow>
     best = Some (r, c, q) \<or> (r = a \<and> rule_match a src st (or_empty (prevCapture st)) = Some c)"
  by (auto simp: try_rule_def Let_def split: option.splits if_splits prod.splits)

lemma try_rule_finds:
  "try_rule a best src st \<noteq> None
     \<or> (best = None \<and> rule_match a src st (or_empty (prevCapture st)) = None)"
  by (auto simp: try_rule_def Let_def split: option.splits if_splits prod.splits)

lemma select_sound:
  "select_rule rs best src st = Some (r, c, q) \<Longrightarrow>
     best = Some (r, c, q) \<or> (r \<in> set rs \<and> rule_match r src st (or_empty (prevCapture st)) = Some c)"
proof (induction rs best src st rule: select_rule.induct)
  case (1 best source state)
  then show ?case by simp
next
  case (2 currRule best source state)
  then show ?case using try_rule_sound by fastforce
next
  case (3 currRule nextRule others best source state)
  let ?b = "try_rule currRule best source state"
  from 3(2) have "?b = Some (r, c, q) \<or> 
      ((?b = None \<or> (rule_order nextRule = rule_order currRule \<and> rule_quality nextRule \<noteq> None)) \<and>
       select_rule (nextRule # others) ?b source state = Some (r, c, q))"
    by (auto simp: Let_def split: if_splits)
  then show ?case
  proof
    assume "?b = Some (r, c, q)"
    from try_rule_sound[OF this] show ?thesis by auto
  next
    assume a: "(?b = None \<or> (rule_order nextRule = rule_order currRule \<and> rule_quality nextRule \<noteq> None)) \<and>
       select_rule (nextRule # others) ?b source state = Some (r, c, q)"
    with 3(1)[OF refl] have "?b = Some (r, c, q) \<or> (r \<in> set (nextRule # others)
        \<and> rule_match r source state (or_empty (prevCapture state)) = Some c)"
      by blast
    with try_rule_sound[of currRule best source state r c q] show ?thesis by auto
  qed
qed

lemma select_finds:
  "best \<noteq> None \<or> (\<exists>r \<in> set rs. rule_match r src st (or_empty (prevCapture st)) \<noteq> None) \<Longrightarrow>
     select_rule rs best src st \<noteq> None"
proof (induction rs best src st rule: select_rule.induct)
  case (1 best source state)
  then show ?case by simp
next
  case (2 currRule best source state)
  with try_rule_finds[of currRule best source state] show ?case by auto
next
  case (3 currRule nextRule others best source state)
  let ?b = "try_rule currRule best source state"
  from 3(2) try_rule_finds[of currRule best source state]
  have c: "?b \<noteq> None \<or> (\<exists>r \<in> set (nextRule # others).
      rule_match r source state (or_empty (prevCapture state)) \<noteq> None)"
    by auto
  show ?case
  proof (cases "?b = None \<or> (rule_order nextRule = rule_order currRule \<and> rule_quality nextRule \<noteq> None)")
    case True
    then have "select_rule (currRule # nextRule # others) best source state
        = select_rule (nextRule # others) ?b source state"
      by (auto simp: Let_def simp del: not_None_eq)
    with 3(1)[OF refl True c] show ?thesis by simp
  next
    case False
    then have "select_rule (currRule # nextRule # others) best source state = ?b"
      by (auto simp: Let_def simp del: not_None_eq)
    with False show ?thesis by auto
  qed
qed


lemmas re_unfold = re_defs seqs_def lit_def lits_def plus_def lazy_plus_def anychar_def opt_def shrug_def

lemma minlen_res:
  "0 < minlen text_re" "0 < minlen blockQuote_re" "0 < minlen codeBlock_re" "0 < minlen newline_re"
  "0 < minlen escape_re" "0 < minlen autolink_re" "0 < minlen url_re" "0 < minlen em_re"
  "0 < minlen strong_re" "0 < minlen u_re" "0 < minlen strike_re" "0 < minlen inlineCode_re"
  "0 < minlen emoticon_re" "0 < minlen br_re" "0 < minlen spoiler_re" "0 < minlen discordUser_re"
  "0 < minlen discordChannel_re" "0 < minlen discordRole_re" "0 < minlen discordEmoji_re"
  "0 < minlen discordEveryone_re" "0 < minlen discordHere_re"
  "0 < minlen block_syntax_re" "0 < minlen line_syntax_re"
  by (simp_all add: re_unfold block_syntax_re_def line_syntax_re_def)

lemma good_simple:
  assumes "anchored R" and "0 < minlen R"
    and "\<And>src st pv c. rule_match r src st pv = Some c \<Longrightarrow> exec R src = Some c"
    and "\<And>c P st. \<exists>node st'. rule_parse r c P st = Some (Inr (node, st'))"
  shows "good_rule r"
  unfolding good_rule_def
proof (intro allI impI)
  fix src st pv c P
  assume "src \<noteq> []" and "rule_match r src st pv = Some c"
  then have e: "exec R src = Some c" using assms(3) by blast
  from exec_anchored_props[OF assms(1,2) e] assms(4)
  show "index c = 0 \<and> whole c \<noteq> [] \<and> length (whole c) \<le> length src
     \<and> whole c = take (length (whole c)) src
     \<and> (total_below P (length src) \<longrightarrow> (\<exists>node st'. rule_parse r c P st = Some (Inr (node, st'))))"
    by blast
qed

lemma good_group_A:
  "good_rule text_rule" "good_rule codeBlock_rule" "good_rule newline_rule" "good_rule escape_rule"
  "good_rule autolink_rule" "good_rule url_rule" "good_rule inlineCode_rule" "good_rule emoticon_rule"
  "good_rule br_rule" "good_rule discordUser_rule" "good_rule discordChannel_rule"
  "good_rule discordRole_rule" "good_rule discordEmoji_rule" "good_rule discordEveryone_rule"
  "good_rule discordHere_rule"
proof -
  show "good_rule text_rule"
    by (rule good_simple[of text_re]) (auto simp: minlen_res text_rule_def)
  show "good_rule codeBlock_rule"
    by (rule good_simple[of codeBlock_re]) (auto simp: minlen_res codeBlock_rule_def inlineRegex_def split: if_splits)
  show "good_rule newline_rule"
    by (rule good_simple[of newline_re]) (auto simp: minlen_res newline_rule_def blockRegex_def split: if_splits)
  show "good_rule escape_rule"
    by (rule good_simple[of escape_re]) (auto simp: minlen_res escape_rule_def inlineRegex_def split: if_splits)
  show "good_rule autolink_rule"
    by (rule good_simple[of autolink_re]) (auto simp: minlen_res autolink_rule_def inlineRegex_def split: if_splits)
  show "good_rule url_rule"
    by (rule good_simple[of url_re]) (auto simp: minlen_res url_rule_def inlineRegex_def split: if_splits)
  show "good_rule inlineCode_rule"
    by (rule good_simple[of inlineCode_re]) (auto simp: minlen_res inlineCode_rule_def inlineRegex_def split: if_splits)
  show "good_rule emoticon_rule"
    by (rule good_simple[of emoticon_re]) (auto simp: minlen_res emoticon_rule_def)
  show "good_rule br_rule"
    by (rule good_simple[of br_re]) (auto simp: minlen_res br_rule_def anyScopeRegex_def)
  show "good_rule discordUser_rule"
    by (rule good_simple[of discordUser_re]) (auto simp: minlen_res discordUser_rule_def)
  show "good_rule discordChannel_rule"
    by (rule good_simple[of discordChannel_re]) (auto simp: minlen_res discordChannel_rule_def)
  show "good_rule discordRole_rule"
    by (rule good_simple[of discordRole_re]) (auto simp: minlen_res discordRole_rule_def)
  show "good_rule discordEmoji_rule"
    by (rule good_simple[of discordEmoji_re]) (auto simp: minlen_res discordEmoji_rule_def)
  show "good_rule discordEveryone_rule"
    by (rule good_simple[of discordEveryone_re]) (auto simp: minlen_res discordEveryone_rule_def)
  show "good_rule discordHere_rule"
    by (rule good_simple[of discordHere_re]) (auto simp: minlen_res discordHere_rule_def)
qed


lemma strict_chr:
  assumes "m (Seq Bol (Seq (Chr a) r)) [] (MS None src []) = Some t"
  shows "caps_le (length src - Suc 0) (caps t)"
proof (cases src)
  case Nil
  with assms show ?thesis by simp
next
  case (Cons x xs)
  with assms have "run [KRe r] (MS (Some x) xs []) = Some t"
    by (simp split: if_splits)
  from caps_bound(2)[of "[KRe r]" "MS (Some x) xs []"] this
  show ?thesis by (simp add: Cons)
qed

lemma strict_lit:
  assumes "m (Seq Bol (Seq (Seq (Chr a) r1) r2)) [] (MS None src []) = Some t"
  shows "caps_le (length src - Suc 0) (caps t)"
proof (cases src)
  case Nil
  with assms show ?thesis by simp
next
  case (Cons x xs)
  with assms have "run [KRe r1, KRe r2] (MS (Some x) xs []) = Some t"
    by (simp split: if_splits)
  from caps_bound(2)[of "[KRe r1, KRe r2]" "MS (Some x) xs []"] this
  show ?thesis by (simp add: Cons)
qed

lemma strict_wordb:
  assumes "m (Seq Bol (Seq Wordb (Seq (Chr a) r))) [] (MS None src []) = Some t"
  shows "caps_le (length src - Suc 0) (caps t)"
proof (cases src)
  case Nil
  with assms show ?thesis by simp
next
  case (Cons x xs)
  with assms have "run [KRe r] (MS (Some x) xs []) = Some t"
    by (simp split: if_splits)
  from caps_bound(2)[of "[KRe r]" "MS (Some x) xs []"] this
  show ?thesis by (simp add: Cons)
qed

lemma exec_groups:
  assumes "anchored R" and "exec R src = Some c"
  obtains t where "m R [] (MS None src []) = Some t" and "groups c = caps t"
  using assms by (auto simp: exec_anchored match_here_def split: option.splits)

lemma strict_res:
  "exec spoiler_re src = Some c \<Longrightarrow> caps_le (length src - Suc 0) (groups c)"
  "exec strong_re src = Some c \<Longrightarrow> caps_le (length src - Suc 0) (groups c)"
  "exec u_re src = Some c \<Longrightarrow> caps_le (length src - Suc 0) (groups c)"
  "exec strike_re src = Some c \<Longrightarrow> caps_le (length src - Suc 0) (groups c)"
  "exec em_re src = Some c \<Longrightarrow> caps_le (length src - Suc 0) (groups c)"
proof -
  show "exec spoiler_re src = Some c \<Longrightarrow> caps_le (length src - Suc 0) (groups c)"
    by (erule exec_groups[rotated]) (auto simp: re_unfold dest: strict_lit simp del: m.simps run.simps)
  show "exec strong_re src = Some c \<Longrightarrow> caps_le (length src - Suc 0) (groups c)"
    by (erule exec_groups[rotated]) (auto simp: re_unfold dest: strict_lit simp del: m.simps run.simps)
  show "exec u_re src = Some c \<Longrightarrow> caps_le (length src - Suc 0) (groups c)"
    by (erule exec_groups[rotated]) (auto simp: re_unfold dest: strict_lit simp del: m.simps run.simps)
  show "exec strike_re src = Some c \<Longrightarrow> caps_le (length src - Suc 0) (groups c)"
    by (erule exec_groups[rotated]) (auto simp: re_unfold dest: strict_lit simp del: m.simps run.simps)
  show "exec em_re src = Some c \<Longrightarrow> caps_le (length src - Suc 0) (groups c)"
  proof (erule exec_groups[rotated])
    show "anchored em_re" by simp
    fix t assume t: "m em_re [] (MS None src []) = Some t" and g: "groups c = caps t"
    from t have "(\<exists>r. m (Seq Bol (Seq Wordb (Seq (Chr 95) r))) [] (MS None src []) = Some t)
        \<or> (\<exists>r. m (Seq Bol (Seq (Chr 42) r)) [] (MS None src []) = Some t)"
      unfolding em_re_def seqs_def foldr.simps o_apply m.simps(7)
      by (auto split: option.splits simp del: m.simps run.simps)
    with strict_wordb strict_chr show "caps_le (length src - Suc 0) (groups c)"
      unfolding g by blast
  qed
qed


lemma grp_len: "caps_le B (groups c) \<Longrightarrow> length (or_empty (grp c n)) \<le> B"
  by (auto simp: grp_def or_empty_def caps_le_def split: option.splits dest: map_of_SomeD)

lemma total_belowD:
  "total_below P k \<Longrightarrow> length s < k \<Longrightarrow> \<exists>ns st'. P s st = Some (Inr (ns, st'))"
  by (simp add: total_below_def)

lemma good_nested:
  assumes "anchored R" and "0 < minlen R"
    and "\<And>src st pv c. rule_match r src st pv = Some c \<Longrightarrow> exec R src = Some c"
    and "\<And>src c. exec R src = Some c \<Longrightarrow> caps_le (length src - Suc 0) (groups c)"
    and "\<And>c P st k. caps_le (k - Suc 0) (groups c) \<Longrightarrow> 0 < k \<Longrightarrow> total_below P k \<Longrightarrow>
            \<exists>node st'. rule_parse r c P st = Some (Inr (node, st'))"
  shows "good_rule r"
  unfolding good_rule_def
proof (intro allI impI)
  fix src :: jsstring and st pv c P
  assume ne: "src \<noteq> []" and "rule_match r src st pv = Some c"
  then have e: "exec R src = Some c" using assms(3) by blast
  from ne have "0 < length src" by simp
  with exec_anchored_props[OF assms(1,2) e] assms(5)[OF assms(4)[OF e]]
  show "index c = 0 \<and> whole c \<noteq> [] \<and> length (whole c) \<le> length src
     \<and> whole c = take (length (whole c)) src
     \<and> (total_below P (length src) \<longrightarrow> (\<exists>node st'. rule_parse r c P st = Some (Inr (node, st'))))"
    by blast
qed

lemma parse_content_ok:
  assumes "caps_le (k - Suc 0) (groups c)" and "0 < k" and "total_below P k"
  shows "\<exists>ns st'. P (or_empty (grp c n)) st = Some (Inr (ns, st'))"
proof -
  from grp_len[OF assms(1), of n] assms(2) have "length (or_empty (grp c n)) < k" by simp
  from total_belowD[OF assms(3) this] show ?thesis .
qed

lemma parseInline_ok:
  assumes "caps_le (k - Suc 0) (groups c)" and "0 < k" and "total_below P k"
  shows "\<exists>ns st'. parseInline P (grp c n) st = Some (Inr (ns, st'))"
proof -
  from parse_content_ok[OF assms, where n=n and st="st\<lparr>inline := Some True\<rparr>"]
  show ?thesis by (auto simp: parseInline_def Let_def)
qed

lemma good_group_B:
  "good_rule spoiler_rule" "good_rule strong_rule" "good_rule u_rule" "good_rule strike_rule"
  "good_rule em_rule"
proof -
  show "good_rule spoiler_rule"
  proof (rule good_nested[of spoiler_re])
    fix c :: capture and P :: parser and st :: pstate and k :: nat
    assume "caps_le (k - Suc 0) (groups c)" "0 < k" "total_below P k"
    from parse_content_ok[OF this, where n=1 and st=st]
    show "\<exists>node st'. rule_parse spoiler_rule c P st = Some (Inr (node, st'))"
      by (auto simp: spoiler_rule_def)
  qed (auto simp: minlen_res strict_res spoiler_rule_def)
  show "good_rule strong_rule"
  proof (rule good_nested[of strong_re])
    fix c :: capture and P :: parser and st :: pstate and k :: nat
    assume "caps_le (k - Suc 0) (groups c)" "0 < k" "total_below P k"
    from parseInline_ok[OF this, where n=1 and st=st]
    show "\<exists>node st'. rule_parse strong_rule c P st = Some (Inr (node, st'))"
      by (auto simp: strong_rule_def)
  qed (auto simp: minlen_res strict_res strong_rule_def inlineRegex_def split: if_splits)
  show "good_rule u_rule"
  proof (rule good_nested[of u_re])
    fix c :: capture and P :: parser and st :: pstate and k :: nat
    assume "caps_le (k - Suc 0) (groups c)" "0 < k" "total_below P k"
    from parseInline_ok[OF this, where n=1 and st=st]
    show "\<exists>node st'. rule_parse u_rule c P st = Some (Inr (node, st'))"
      by (auto simp: u_rule_def)
  qed (auto simp: minlen_res strict_res u_rule_def inlineRegex_def split: if_splits)
  show "good_rule strike_rule"
  proof (rule good_nested[of strike_re])
    fix c :: capture and P :: parser and st :: pstate and k :: nat
    assume "caps_le (k - Suc 0) (groups c)" "0 < k" "total_below P k"
    from parseInline_ok[OF this, where n=1 and st=st]
    show "\<exists>node st'. rule_parse strike_rule c P st = Some (Inr (node, st'))"
      by (auto simp: strike_rule_def)
  qed (auto simp: minlen_res strict_res strike_rule_def inlineRegex_def split: if_splits)
  show "good_rule em_rule"
  proof (rule good_nested[of em_re])
    fix c :: capture and P :: parser and st :: pstate and k :: nat
    assume a: "caps_le (k - Suc 0) (groups c)" "0 < k" "total_below P k"
    from parse_content_ok[OF a, where n=1 and st=st] parse_content_ok[OF a, where n=2 and st=st]
    show "\<exists>node st'. rule_parse em_rule c P st = Some (Inr (node, st'))"
      by (auto simp: em_rule_def)
  qed (auto simp: minlen_res strict_res em_rule_def inlineRegex_def split: if_splits)
qed


lemma star_chr_unfold:
  "m (Star True (Chr c)) ks (MS p (x # xs) cs) =
     (if x = c then (case m (Star True (Chr c)) ks (MS (Some x) xs cs) of
                       Some t \<Rightarrow> Some t | None \<Rightarrow> run ks (MS p (x # xs) cs))
      else run ks (MS p (x # xs) cs))"
  by (subst m.simps(8)) (simp del: m.simps(8))

lemma star_chr_inv:
  "m (Star True (Chr c)) ks (MS p xs cs) = Some t \<Longrightarrow>
     \<exists>k p'. k \<le> length xs \<and> take k xs = replicate k c \<and> run ks (MS p' (drop k xs) cs) = Some t"
proof (induction xs arbitrary: p)
  case Nil
  then show ?case by auto
next
  case (Cons x xs)
  show ?case
  proof (cases "x = c \<and> m (Star True (Chr c)) ks (MS (Some x) xs cs) \<noteq> None")
    case True
    with Cons.prems have "m (Star True (Chr c)) ks (MS (Some x) xs cs) = Some t"
      by (auto simp: star_chr_unfold simp del: m.simps(8))
    from Cons.IH[OF this] obtain k p' where "k \<le> length xs" "take k xs = replicate k c"
      "run ks (MS p' (drop k xs) cs) = Some t" by blast
    with True show ?thesis
      by (intro exI[of _ "Suc k"] exI[of _ p']) simp
  next
    case False
    with Cons.prems have "run ks (MS p (x # xs) cs) = Some t"
      by (auto simp: star_chr_unfold simp del: m.simps(8) split: option.splits if_splits)
    then show ?thesis
      by (intro exI[of _ 0] exI[of _ p]) simp
  qed
qed

lemma star_chr_success:
  "(ys = [] \<or> hd ys \<noteq> c) \<Longrightarrow> run ks (MS (if k = 0 then p else Some c) ys cs) = Some t \<Longrightarrow>
     m (Star True (Chr c)) ks (MS p (replicate k c @ ys) cs) = Some t"
proof (induction k arbitrary: p)
  case 0
  then show ?case by (cases ys) auto
next
  case (Suc k)
  from Suc.prems have "m (Star True (Chr c)) ks (MS (Some c) (replicate k c @ ys) cs) = Some t"
    by (intro Suc.IH) (auto split: if_splits)
  then show ?case
    by (simp del: m.simps(8) add: star_chr_unfold)
qed

lemma quote_shape:
  assumes "m (Seq Bol (Seq (Grp n (Seq (Star True (Chr 32)) (Seq (Seq (Chr 62) r1) r2))) r3)) []
             (MS None src []) = Some t"
  shows "\<exists>k zs. src = replicate k 32 @ 62 # zs \<and> length (rest t) \<le> length zs"
proof -
  let ?ks = "[KRe (Seq (Seq (Chr 62) r1) r2), KGrp n src, KRe r3]"
  from assms have "m (Star True (Chr 32)) ?ks (MS None src []) = Some t"
    by (simp del: m.simps(8))
  from star_chr_inv[OF this] obtain k p' where k: "k \<le> length src" "take k src = replicate k 32"
    and r: "run ?ks (MS p' (drop k src) []) = Some t" by blast
  from r obtain zs where zs: "drop k src = 62 # zs"
    and r': "run [KRe r1, KRe r2, KGrp n src, KRe r3] (MS (Some 62) zs []) = Some t"
    by (cases "drop k src") (auto split: if_splits)
  from m_consumes(2)[of "[KRe r1, KRe r2, KGrp n src, KRe r3]" "MS (Some 62) zs []"] r'
  have "length (rest t) \<le> length zs" by simp
  moreover have "src = replicate k 32 @ 62 # zs"
    using append_take_drop_id[of k src] k zs by simp
  ultimately show ?thesis by blast
qed

lemma blockQuote_shape:
  assumes "exec blockQuote_re src = Some c"
  shows "\<exists>k zs. whole c = replicate k 32 @ 62 # zs"
proof -
  from assms obtain t where t: "m blockQuote_re [] (MS None src []) = Some t"
    and c: "whole c = take (length src - length (rest t)) src"
    by (auto simp: exec_anchored match_here_def split: option.splits)
  from t have "(\<exists>n r1 r2 r3. m (Seq Bol (Seq (Grp n (Seq (Star True (Chr 32)) (Seq (Seq (Chr 62) r1) r2))) r3)) []
             (MS None src []) = Some t)"
    unfolding blockQuote_re_def seqs_def lit_def foldr.simps o_apply m.simps(7) list.map
    by (auto split: option.splits simp del: m.simps run.simps)
  with quote_shape obtain k zs where s: "src = replicate k 32 @ 62 # zs" and l: "length (rest t) \<le> length zs"
    by blast
  have "length src = k + Suc (length zs)" by (simp add: s)
  with l have d: "length src - length (rest t) = k + Suc (length zs - length (rest t))"
    by arith
  have "take (k + Suc (length zs - length (rest t))) (replicate k 32 @ 62 # zs)
      = replicate k 32 @ 62 # take (length zs - length (rest t)) zs"
    using l by (simp add: Suc_diff_le)
  with c d s have "whole c = replicate k 32 @ 62 # take (length zs - length (rest t)) zs"
    by metis
  then show ?thesis by blast
qed

lemma take_nonempty: "n < length a \<Longrightarrow> take (length a - n) a \<noteq> []"
  by (cases a) auto

lemma line_syntax_matches:
  "\<exists>w g. match_here line_syntax_re None (replicate k 32 @ 62 # zs) = Some (w, g) \<and> w \<noteq> []"
proof -
  let ?all = "replicate k 32 @ 62 # zs"
  let ?ks = "[KRe (Seq (Chr 62) (Seq (Alt (Chr 32) Eps) Eps))]"
  have "\<exists>t. run ?ks (MS (if k = 0 then None else Some 32) (62 # zs) []) = Some t"
    by (cases zs) (auto split: option.splits)
  then obtain t where "run ?ks (MS (if k = 0 then None else Some 32) (62 # zs) []) = Some t" ..
  from star_chr_success[OF _ this] have "m (Star True (Chr 32)) ?ks (MS None ?all []) = Some t"
    by simp
  then have t: "m line_syntax_re [] (MS None ?all []) = Some t"
    by (simp add: line_syntax_re_def seqs_def opt_def del: m.simps(8))
  from m_consumes(1)[of line_syntax_re "[]" "MS None ?all []"] t minlen_res(23)
  have "length (rest t) < length ?all" by auto
  then have "take (length ?all - length (rest t)) ?all \<noteq> []" by (rule take_nonempty)
  with t show ?thesis by (simp add: match_here_def del: take_append)
qed

lemma replace_all_from_le: "length (replace_all_from r no_text p s) \<le> length s"
proof (induction r no_text p s rule: replace_all_from.induct)
  case (1 r p)
  then show ?case by (simp add: no_text_def split: option.splits)
next
  case (2 r p x xs)
  show ?case
  proof (cases "match_here r p (x # xs)")
    case None
    with 2(1) show ?thesis by simp
  next
    case (Some a)
    obtain w g where a: "a = (w, g)" by (cases a)
    show ?thesis
    proof (cases "w = []")
      case True
      with 2(2)[OF Some a[symmetric]] Some a show ?thesis by (simp add: no_text_def)
    next
      case False
      from 2(3)[OF Some a[symmetric] False]
      have "length (replace_all_from r no_text (Some (last w)) (drop (length w) (x # xs)))
          \<le> length (x # xs)" by simp
      with Some a False show ?thesis by (simp add: no_text_def)
    qed
  qed
qed

lemma replace_all_shorter:
  assumes "match_here r None s = Some (w, g)" and "w \<noteq> []"
  shows "length (replace_all r no_text s) < length s"
proof (cases s)
  case Nil
  with assms show ?thesis by (simp add: match_here_def split: option.splits)
next
  case (Cons x xs)
  have "length (replace_all_from r no_text (Some (last w)) (drop (length w) (x # xs)))
      \<le> length (drop (length w) (x # xs))" by (rule replace_all_from_le)
  also have "\<dots> < length (x # xs)" using assms(2) by (cases w) auto
  finally show ?thesis using assms by (simp add: replace_all_def Cons no_text_def)
qed

lemma good_blockQuote: "good_rule blockQuote_rule"
  unfolding good_rule_def
proof (intro allI impI)
  fix src :: jsstring and st pv c P
  assume ne: "src \<noteq> []" and ma: "rule_match blockQuote_rule src st pv = Some c"
  then have e: "exec blockQuote_re src = Some c"
    by (auto simp: blockQuote_rule_def blockQuote_match_def split: if_splits)
  note p = exec_anchored_props[OF anchored_res(2) minlen_res(2) e]
  have "total_below P (length src) \<Longrightarrow> \<exists>node st'. rule_parse blockQuote_rule c P st = Some (Inr (node, st'))"
  proof -
    assume tb: "total_below P (length src)"
    let ?all = "whole c"
    show ?thesis
    proof (cases "exec block_syntax_re ?all")
      case None
      from blockQuote_shape[OF e] obtain k zs where "?all = replicate k 32 @ 62 # zs" by blast
      with line_syntax_matches[of k zs] obtain w g where
        "match_here line_syntax_re None ?all = Some (w, g)" "w \<noteq> []" by auto
      from replace_all_shorter[OF this] p(4)
      have "length (replace_all line_syntax_re no_text ?all) < length src" by simp
      from total_belowD[OF tb this, of "st\<lparr>inQuote := Some True, inline := Some True\<rparr>"]
      show ?thesis
        by (auto simp: blockQuote_rule_def blockQuote_parse_def Let_def None)
    next
      case (Some c')
      from exec_anchored_props[OF anchored_block_syntax minlen_res(22) Some]
      have "index c' = 0" and "0 < length (whole c')" and "length (whole c') \<le> length ?all"
        by simp_all
      with p(4) have "length (replace_first block_syntax_re no_text ?all) < length src"
        by (cases "whole c'") (auto simp: replace_first_def Some no_text_def)
      from total_belowD[OF tb this, of "st\<lparr>inQuote := Some True\<rparr>"]
      show ?thesis
        by (auto simp: blockQuote_rule_def blockQuote_parse_def Let_def Some)
    qed
  qed
  with p show "index c = 0 \<and> whole c \<noteq> [] \<and> length (whole c) \<le> length src
     \<and> whole c = take (length (whole c)) src
     \<and> (total_below P (length src) \<longrightarrow> (\<exists>node st'. rule_parse blockQuote_rule c P st = Some (Inr (node, st'))))"
    by blast
qed


lemma all_good: "r \<in> set ruleList \<Longrightarrow> good_rule r"
  using good_group_A good_group_B good_blockQuote by (auto simp: ruleList_eq)

lemma text_always:
  "\<exists>r \<in> set ruleList. rule_match r (x # xs) st pv \<noteq> None"
proof -
  have "text_rule \<in> set ruleList" by (simp add: ruleList_eq)
  moreover have "rule_match text_rule (x # xs) st pv \<noteq> None"
    using text_matches[of x xs] by (simp add: text_rule_def)
  ultimately show ?thesis by blast
qed

lemma nestedParse_total:
  "length src \<le> n \<Longrightarrow>
     \<exists>spans st'. nestedParse (Suc n) src st = Some (Inr (spans, st'))
        \<and> concat (map fst spans) = src \<and> (\<forall>w \<in> fst ` set spans. w \<noteq> [])"
proof (induction n arbitrary: src st)
  case 0
  then show ?case by simp
next
  case (Suc n)
  show ?case
  proof (cases src)
    case Nil
    then show ?thesis by simp
  next
    case (Cons x xs)
    let ?P = "\<lambda>src st. nodes_only (nestedParse (Suc n) src st)"
    have tb: "total_below ?P (length src)"
      unfolding total_below_def
    proof (intro allI impI)
      fix s :: jsstring and st0
      assume "length s < length src"
      with Suc.prems have "length s \<le> n" by simp
      from Suc.IH[OF this, of st0] show "\<exists>ns st'. ?P s st0 = Some (Inr (ns, st'))"
        by (auto simp: nodes_only_def)
    qed
    from select_finds[of None ruleList src st] text_always[of x xs st]
    obtain rule c q where sel: "select_rule ruleList None src st = Some (rule, c, q)"
      by (auto simp: Cons)
    from select_sound[OF sel] have r: "rule \<in> set ruleList"
      and ma: "rule_match rule src st (or_empty (prevCapture st)) = Some c" by auto
    from all_good[OF r] ma Cons tb
    have i: "index c = 0" and w: "whole c \<noteq> []" and l: "length (whole c) \<le> length src"
      and t: "whole c = take (length (whole c)) src"
      and "\<exists>node st'. rule_parse rule c ?P st = Some (Inr (node, st'))"
      unfolding good_rule_def by blast+
    then obtain node st' where pa: "rule_parse rule c ?P st = Some (Inr (node, st'))" by blast
    from w l Suc.prems have "length (drop (length (whole c)) src) \<le> n"
      by (cases "whole c") auto
    from Suc.IH[OF this, of "st'\<lparr>prevCapture := Some (whole c)\<rparr>"]
    obtain spans st'' where re: "nestedParse (Suc n) (drop (length (whole c)) src)
        (st'\<lparr>prevCapture := Some (whole c)\<rparr>) = Some (Inr (spans, st''))"
      and co: "concat (map fst spans) = drop (length (whole c)) src"
      and ne: "\<forall>w \<in> fst ` set spans. w \<noteq> []" by blast
    have "nestedParse (Suc (Suc n)) src st = Some (Inr ((whole c, node) # spans, st''))"
      using sel i pa re by (simp add: Cons)
    moreover have "concat (map fst ((whole c, node) # spans)) = src"
      using co t append_take_drop_id[of "length (whole c)" src] by simp
    moreover have "\<forall>w \<in> fst ` set ((whole c, node) # spans). w \<noteq> []"
      using w ne by simp
    ultimately show ?thesis by blast
  qed
qed

text \<open>
  Claim C2, as amended. For every source the parser returns: it ends with a list of
  nodes and never with an error or without a result. The texts matched by the rules that
  produced the nodes are not empty and, put one after the other, give the source as the
  engine normalises it before parsing (a carriage return, with the line feed after it,
  becomes a line feed; form feeds are removed; a tab becomes four spaces). For a source
  without carriage return, form feed and tab they give the source itself.
\<close>

theorem parse_total:
  "\<exists>spans. parse_spans source = Some (Inr spans)
      \<and> parse source = Some (Inr (map snd spans))
      \<and> concat (map fst spans) = preprocess source
      \<and> (\<forall>w \<in> fst ` set spans. w \<noteq> [])
      \<and> ((\<forall>c \<in> set source. c \<noteq> 9 \<and> c \<noteq> 12 \<and> c \<noteq> 13) \<longrightarrow> concat (map fst spans) = source)"
proof -
  from nestedParse_total[of "preprocess source" "length (preprocess source)" initial_state]
  obtain spans st' where
    "nestedParse (Suc (length (preprocess source))) (preprocess source) initial_state = Some (Inr (spans, st'))"
    "concat (map fst spans) = preprocess source" "\<forall>w \<in> fst ` set spans. w \<noteq> []"
    by auto
  then show ?thesis
    using preprocess_id[of source]
    by (intro exI[of _ spans]) (simp add: parse_spans_def parse_def)
qed

text \<open>
  Claim C2, as amended, at the source \<open>hi <@1>\<close>.
\<close>

theorem parse_total_witness:
  "parse_spans (js ''hi <@1>'')
     = Some (Inr [(js ''hi '', Text (Some (js ''hi ''))), (js ''<@1>'', DiscordUser (Some (js ''1'')))])
   \<and> parse (js ''hi <@1>'') = Some (Inr [Text (Some (js ''hi '')), DiscordUser (Some (js ''1''))])
   \<and> js ''hi '' @ js ''<@1>'' = js ''hi <@1>''
   \<and> preprocess (js ''hi <@1>'') = js ''hi <@1>''"
proof -
  have e: "parse_spans (js ''hi <@1>'')
     = Some (Inr [(js ''hi '', Text (Some (js ''hi ''))), (js ''<@1>'', DiscordUser (Some (js ''1'')))])"
    by (simp add: eval_defs)
  from parse_total[of "js ''hi <@1>''"] e
  have "parse (js ''hi <@1>'') = Some (Inr [Text (Some (js ''hi '')), DiscordUser (Some (js ''1''))])"
    and "preprocess (js ''hi <@1>'') = js ''hi <@1>''"
    by (auto simp: js_def)
  with e show ?thesis by (simp add: js_def)
qed

text \<open>
  Claim C2 as stated fails for a source with a form feed: the engine removes it before
  any rule runs, so the source that is one form feed parses to no node at all and no
  matched text covers the form feed.
\<close>

theorem parse_drops_form_feed_counterexample:
  "parse_spans [12] = Some (Inr []) \<and> concat (map fst ([] :: (jsstring \<times> node) list)) \<noteq> [12]"
  by (simp add: parse_spans_def preprocess_def replaceAll_def initial_state_def)

section \<open>The round trip of \<^verbatim>\<open>escape\<close> and \<^verbatim>\<open>sanitize\<close>\<close>

text \<open>
  \<^verbatim>\<open>escape\<close> works character by character: it puts a backslash before each of the
  eight special characters and copies every other one. Its result is an escaped text.
\<close>

lemma escape_Nil [simp]: "escape [] = []"
  by (simp add: escape_def replaceAll_def)












lemma special8_text_special: "special8 c \<Longrightarrow> text_special c"
  by (auto simp: special8_def text_special_def digit_def upper_def lower_def space_def)






























end
